(* ===== verification/Prelude.thy ===== *)
theory Prelude
  imports Main "HOL-Library.Word" "HOL-Library.Monad_Syntax"
begin

section \<open>Prelude: what the components share\<close>

text \<open>
  The vocabulary of the development: C arrays with their bounds, C's truncating integer
  division and its conversions between integer types, mutexes, and the cyclic slice of an
  array, the view that all three ring buffers of the program (the IOCB pool, the kernel's
  completion ring and the Java callback cache) have of their storage.

  Partial operations are functions into \<open>option\<close>: \<open>None\<close> stands for an execution that
  has no defined continuation (an out-of-range access, a null or dangling dereference, a
  division by zero, an invalid JNI reference, a lock that cannot be taken). Every error that
  the code itself reports is a value instead: a return code or a pending Java exception.
\<close>

named_theorems ring_simps \<open>cyclic slices under the updates the ring buffers make\<close>
named_theorems pool_simps \<open>definitions that unfold the pool operations\<close>
named_theorems machine_simps \<open>primitive operations on the machine state\<close>

type_synonym addr = nat
type_synonym byte = "8 word"
type_synonym u32 = "32 word"
type_synonym u64 = "64 word"

abbreviation (input) NULL :: addr where "NULL \<equiv> 0"

subsection \<open>The option monad\<close>

lemma bind_Some_iff:
  "Option.bind a f = Some y \<longleftrightarrow> (\<exists>x. a = Some x \<and> f x = Some y)"
  by (cases a) auto

subsection \<open>C arrays\<close>

definition arr_get :: "'a list \<Rightarrow> int \<Rightarrow> 'a option" where
  "arr_get xs i = (if 0 \<le> i \<and> i < int (length xs) then Some (xs ! nat i) else None)"

definition arr_set :: "'a list \<Rightarrow> int \<Rightarrow> 'a \<Rightarrow> 'a list option" where
  "arr_set xs i x = (if 0 \<le> i \<and> i < int (length xs) then Some (xs[nat i := x]) else None)"

lemma arr_get_in [simp]: "0 \<le> i \<Longrightarrow> i < int (length xs) \<Longrightarrow> arr_get xs i = Some (xs ! nat i)"
  by (simp add: arr_get_def)

lemma arr_set_in [simp]: "0 \<le> i \<Longrightarrow> i < int (length xs) \<Longrightarrow> arr_set xs i x = Some (xs[nat i := x])"
  by (simp add: arr_set_def)

lemma arr_get_out: "\<not> (0 \<le> i \<and> i < int (length xs)) \<Longrightarrow> arr_get xs i = None"
  by (simp add: arr_get_def)

lemma take_drop_Cons:
  assumes "take (Suc n) (drop i xs) = y # ys"
  shows "i < length xs \<and> xs ! i = y \<and> take n (drop (Suc i) xs) = ys"
proof -
  have i: "i < length xs" using assms by (cases "i < length xs") simp_all
  with assms show ?thesis by (simp flip: Cons_nth_drop_Suc)
qed

subsection \<open>Messages\<close>

text \<open>What \<open>printf\<close> writes for \<open>%d\<close>.\<close>

fun decimal :: "nat \<Rightarrow> string" where
  "decimal n = (if n < 10 then [char_of (48 + n)] else decimal (n div 10) @ [char_of (48 + n mod 10)])"

declare decimal.simps [simp del]

definition printf_d :: "int \<Rightarrow> string" where
  "printf_d i = (if i < 0 then ''-'' @ decimal (nat (- i)) else decimal (nat i))"

lemma printf_d_samples: "printf_d 22 = ''22''" "printf_d (-5) = ''-5''" "printf_d 0 = ''0''"
  by (simp_all add: printf_d_def decimal.simps char_of_def bit_0)

subsection \<open>C integers\<close>

text \<open>
  Signed C integers that the code keeps in range are \<open>int\<close>. The operators below are the
  conversions and the truncating division the source uses, with the cases that C leaves
  undefined as \<open>None\<close>.
\<close>

definition to_int32 :: "int \<Rightarrow> int" where
  "to_int32 i = sint (word_of_int i :: u32)"

definition size_t :: "int \<Rightarrow> u64" where
  "size_t i = word_of_int i"

definition c_div :: "int \<Rightarrow> int \<Rightarrow> int" where
  "c_div a b = sgn a * sgn b * (\<bar>a\<bar> div \<bar>b\<bar>)"

definition c_rem :: "int \<Rightarrow> int \<Rightarrow> int" where
  "c_rem a b = a - b * c_div a b"

lemma c_div_nonneg: "0 \<le> a \<Longrightarrow> 0 < b \<Longrightarrow> c_div a b = a div b"
  by (cases "a = 0") (auto simp: c_div_def sgn_if)

lemma c_rem_nonneg: "0 \<le> a \<Longrightarrow> 0 < b \<Longrightarrow> c_rem a b = a mod b"
  by (simp add: c_rem_def c_div_nonneg minus_mult_div_eq_mod)

lemma sint_word_of_int_id:
  assumes "- (2 ^ 31) \<le> i" and "i < 2 ^ 31"
  shows "sint (word_of_int i :: u32) = i"
  using assms by (simp add: int_word_sint)

lemma to_int32_id: "- (2 ^ 31) \<le> i \<Longrightarrow> i < 2 ^ 31 \<Longrightarrow> to_int32 i = i"
  unfolding to_int32_def by (rule sint_word_of_int_id)

lemma to_int32_range: "- (2 ^ 31) \<le> to_int32 i \<and> to_int32 i < 2 ^ 31"
  using sint_range_size [of "word_of_int i :: u32"] by (simp add: to_int32_def word_size)

subsection \<open>Mutexes\<close>

text \<open>
  A pthread mutex. Locking one that is already locked blocks its caller, and using one
  before its initialisation or after its destruction is undefined: in both cases the
  operation has no value here.
\<close>

datatype mutex = MUninit | MUnlocked | MLocked | MDestroyed

definition mutex_lock :: "mutex \<Rightarrow> mutex option" where
  "mutex_lock m = (if m = MUnlocked then Some MLocked else None)"

definition mutex_unlock :: "mutex \<Rightarrow> mutex option" where
  "mutex_unlock m = (if m = MLocked then Some MUnlocked else None)"

definition mutex_destroy :: "mutex \<Rightarrow> mutex option" where
  "mutex_destroy m = (if m = MUnlocked then Some MDestroyed else None)"

lemma mutex_ops [simp]:
  "mutex_lock MUnlocked = Some MLocked"
  "mutex_unlock MLocked = Some MUnlocked"
  "mutex_destroy MUnlocked = Some MDestroyed"
  by (simp_all add: mutex_lock_def mutex_unlock_def mutex_destroy_def)

subsection \<open>Cyclic slices\<close>

definition ring_slice :: "'a list \<Rightarrow> nat \<Rightarrow> nat \<Rightarrow> 'a list" where
  "ring_slice xs i n = map (\<lambda>k. xs ! ((i + k) mod length xs)) [0..<n]"

lemma length_ring_slice [simp, ring_simps]: "length (ring_slice xs i n) = n"
  by (simp add: ring_slice_def)

lemma ring_slice_0 [simp, ring_simps]: "ring_slice xs i 0 = []"
  by (simp add: ring_slice_def)

lemma nth_ring_slice: "k < n \<Longrightarrow> ring_slice xs i n ! k = xs ! ((i + k) mod length xs)"
  by (simp add: ring_slice_def)

lemma ring_slice_mod: "ring_slice xs (i mod length xs) n = ring_slice xs i n"
  by (rule nth_equalityI) (simp_all add: nth_ring_slice mod_add_left_eq)

lemma ring_slice_snoc:
  "ring_slice xs i (Suc n) = ring_slice xs i n @ [xs ! ((i + n) mod length xs)]"
  by (simp add: ring_slice_def)

lemma ring_slice_Cons:
  "ring_slice xs i (Suc n) = xs ! (i mod length xs) # ring_slice xs (Suc i) n"
proof (rule nth_equalityI)
  show "length (ring_slice xs i (Suc n)) = length (xs ! (i mod length xs) # ring_slice xs (Suc i) n)"
    by simp
next
  fix k assume "k < length (ring_slice xs i (Suc n))"
  then show "ring_slice xs i (Suc n) ! k = (xs ! (i mod length xs) # ring_slice xs (Suc i) n) ! k"
    by (cases k) (simp_all add: nth_ring_slice)
qed

text \<open>Two indices of a cyclic window no longer than the array hit different cells.\<close>

lemma mod_window_inj:
  assumes "(i + a) mod n = (i + b) mod n" and "a < n" and "b < (n::nat)"
  shows "a = b"
proof -
  have *: "x = y" if "x \<le> y" "(i + x) mod n = (i + y) mod n" "y < n" for x y
  proof -
    from that(1,2) have "n dvd (i + y) - (i + x)"
      using mod_eq_dvd_iff_nat [of "i + x" "i + y" n] by simp
    with that(1,3) show "x = y" by (auto dest: dvd_imp_le)
  qed
  show ?thesis
    using * [of a b] * [of b a] assms by (cases "a \<le> b") auto
qed

lemma ring_slice_update_other:
  assumes "j = (i + n) mod length xs" and "n < length xs"
  shows "ring_slice (xs[j := x]) i n = ring_slice xs i n"
proof (rule nth_equalityI)
  fix k assume "k < length (ring_slice (xs[j := x]) i n)"
  then have k: "k < n" by simp
  with assms have "(i + k) mod length xs \<noteq> j"
    using mod_window_inj [of i k "length xs" n] by auto
  with k show "ring_slice (xs[j := x]) i n ! k = ring_slice xs i n ! k"
    by (simp add: nth_ring_slice)
qed simp

lemma ring_slice_update_end:
  assumes "j = (i + n) mod length xs" and "n < length xs"
  shows "ring_slice (xs[j := x]) i (Suc n) = ring_slice xs i n @ [x]"
proof -
  from assms have "j < length xs" by (cases "xs = []") simp_all
  with assms show ?thesis
    by (simp add: ring_slice_snoc ring_slice_update_other)
qed

lemma ring_slice_update_before:
  assumes "i < length xs" and "n < length xs"
  shows "ring_slice (xs[i := x]) (Suc i) n = ring_slice xs (Suc i) n"
proof (rule nth_equalityI)
  fix k assume "k < length (ring_slice (xs[i := x]) (Suc i) n)"
  then have k: "k < n" by simp
  with assms have "(i + Suc k) mod length xs \<noteq> (i + 0) mod length xs"
    using mod_window_inj [of i "Suc k" "length xs" 0] by force
  with k assms(1) show "ring_slice (xs[i := x]) (Suc i) n ! k = ring_slice xs (Suc i) n ! k"
    by (simp add: nth_ring_slice)
qed simp

lemma ring_slice_whole: "ring_slice xs 0 (length xs) = xs"
  by (rule nth_equalityI) (simp_all add: nth_ring_slice)

text \<open>The wrap-around that the code writes as a comparison is the successor modulo the size.\<close>

lemma wrap_succ_int:
  assumes "0 \<le> i" and "i < n"
  shows "(if i + 1 \<ge> n then 0 else i + 1) = (i + 1) mod (n::int)"
proof (cases "n \<le> i + 1")
  case True
  with assms have "n = i + 1" by linarith
  then show ?thesis by simp
qed (use assms in simp)

lemma wrap_succ_nat:
  assumes "0 \<le> i" and "i < int n"
  shows "nat (if i + 1 \<ge> int n then 0 else i + 1) = Suc (nat i) mod n"
proof (cases "i + 1 \<ge> int n")
  case True
  with assms have "n = Suc (nat i)" by linarith
  with True show ?thesis by simp
next
  case False
  with assms have "Suc (nat i) < n" by linarith
  moreover have "nat (i + 1) = Suc (nat i)" using assms by simp
  ultimately show ?thesis using False by simp
qed

end
