(* ===== verification/Pool_Interface.thy ===== *)
theory Pool_Interface
  imports Prelude
begin

section \<open>The interface of a bounded pool\<close>

text \<open>
  Two components keep reusable objects in a cyclic array and hand them out first in, first
  out: the pool of \<open>struct iocb\<close> of the native layer (\<open>getIOCB\<close> and \<open>putIOCB\<close>) and the
  Java \<open>CallbackCache\<close> (\<open>get\<close> and \<open>put\<close>). Their users rely on one contract, stated here
  as a locale: \<open>free\<close> is the list of objects at rest, in the order they will be handed out.
  The facts below are proved once and hold for both components by interpretation.
\<close>

datatype 'a pool_op = PGet | PPut 'a

text \<open>The reference behaviour: a list, taken from the front and filled at the back.\<close>

fun run_list :: "'a pool_op list \<Rightarrow> 'a list \<Rightarrow> 'a option list \<times> 'a list" where
  "run_list [] xs = ([], xs)"
| "run_list (PGet # ops) [] = (let (rs, ys) = run_list ops [] in (None # rs, ys))"
| "run_list (PGet # ops) (x # xs) = (let (rs, ys) = run_list ops xs in (Some x # rs, ys))"
| "run_list (PPut a # ops) xs = run_list ops (xs @ [a])"

text \<open>A sequence of operations never holds more than \<open>n\<close> objects.\<close>

fun within :: "nat \<Rightarrow> 'a pool_op list \<Rightarrow> nat \<Rightarrow> bool" where
  "within n [] k = True"
| "within n (PGet # ops) k = within n ops (k - 1)"
| "within n (PPut a # ops) k = (k < n \<and> within n ops (Suc k))"

text \<open>The same sequence on an implementation.\<close>

fun run_pool ::
  "('s \<Rightarrow> ('a option \<times> 's) option) \<Rightarrow> ('s \<Rightarrow> 'a \<Rightarrow> 's option) \<Rightarrow> 'a pool_op list \<Rightarrow> 's
    \<Rightarrow> ('a option list \<times> 's) option" where
  "run_pool get put [] s = Some ([], s)"
| "run_pool get put (PGet # ops) s = do {
     (r, s) \<leftarrow> get s;
     (rs, s) \<leftarrow> run_pool get put ops s;
     Some (r # rs, s) }"
| "run_pool get put (PPut a # ops) s = do {
     s \<leftarrow> put s a;
     run_pool get put ops s }"

definition puts_of :: "'a pool_op list \<Rightarrow> 'a list" where
  "puts_of ops = concat (map (\<lambda>p. case p of PPut a \<Rightarrow> [a] | PGet \<Rightarrow> []) ops)"

definition gots_of :: "'a option list \<Rightarrow> 'a list" where
  "gots_of rs = concat (map (\<lambda>r. case r of Some a \<Rightarrow> [a] | None \<Rightarrow> []) rs)"

lemma puts_gots_simps [simp]:
  "puts_of [] = []" "puts_of (PGet # ops) = puts_of ops" "puts_of (PPut a # ops) = a # puts_of ops"
  "gots_of [] = []" "gots_of (None # rs) = gots_of rs" "gots_of (Some a # rs) = a # gots_of rs"
  by (simp_all add: puts_of_def gots_of_def)

text \<open>First in, first out: what comes out, followed by what stays, is what was there followed by
  what was put.\<close>

lemma run_list_fifo:
  "run_list ops xs = (rs, ys) \<Longrightarrow> gots_of rs @ ys = xs @ puts_of ops"
  by (induction ops xs arbitrary: rs ys rule: run_list.induct) (auto split: prod.splits)

locale bounded_pool =
  fixes get :: "'s \<Rightarrow> ('a option \<times> 's) option"
    and put :: "'s \<Rightarrow> 'a \<Rightarrow> 's option"
    and free :: "'s \<Rightarrow> 'a list"
    and cap :: "'s \<Rightarrow> nat"
    and invar :: "'s \<Rightarrow> bool"
    and valid :: "'a \<Rightarrow> bool"
  assumes get_empty: "invar s \<Longrightarrow> free s = [] \<Longrightarrow> get s = Some (None, s)"
    and get_first: "invar s \<Longrightarrow> free s = x # xs \<Longrightarrow>
      \<exists>s'. get s = Some (Some x, s') \<and> invar s' \<and> free s' = xs \<and> cap s' = cap s"
    and put_last: "invar s \<Longrightarrow> valid x \<Longrightarrow> length (free s) < cap s \<Longrightarrow>
      \<exists>s'. put s x = Some s' \<and> invar s' \<and> free s' = free s @ [x] \<and> cap s' = cap s"
begin

text \<open>Any sequence of operations that respects the capacity behaves as the list does.\<close>

lemma run_refines_list:
  assumes "invar s" and "within (cap s) ops (length (free s))" and "\<forall>x \<in> set (puts_of ops). valid x"
  shows "\<exists>s'. run_pool get put ops s = Some (fst (run_list ops (free s)), s')
    \<and> invar s' \<and> free s' = snd (run_list ops (free s)) \<and> cap s' = cap s"
  using assms
proof (induction ops arbitrary: s)
  case Nil
  then show ?case by simp
next
  case (Cons p ops)
  show ?case
  proof (cases p)
    case PGet
    show ?thesis
    proof (cases "free s")
      case Nil
      with Cons PGet show ?thesis
        using Cons.IH [of s] by (auto simp: get_empty split: prod.splits)
    next
      case (Cons x xs)
      with get_first [OF Cons.prems(1) this] obtain s1
        where s1: "get s = Some (Some x, s1)" "invar s1" "free s1 = xs" "cap s1 = cap s" by blast
      then show ?thesis
        using Cons.IH [of s1] Cons.prems PGet Cons by (auto split: prod.splits)
    qed
  next
    case (PPut a)
    with Cons.prems have "valid a" "length (free s) < cap s" by simp_all
    with put_last [OF Cons.prems(1)] obtain s1
      where s1: "put s a = Some s1" "invar s1" "free s1 = free s @ [a]" "cap s1 = cap s" by blast
    then show ?thesis
      using Cons.IH [of s1] Cons.prems PPut by auto
  qed
qed

lemma run_fifo:
  assumes "invar s" and "within (cap s) ops (length (free s))" and "\<forall>x \<in> set (puts_of ops). valid x"
  shows "\<exists>rs s'. run_pool get put ops s = Some (rs, s') \<and> invar s' \<and> cap s' = cap s
    \<and> gots_of rs @ free s' = free s @ puts_of ops"
  using run_refines_list [OF assms] run_list_fifo [of ops "free s"]
  by (metis prod.collapse)

text \<open>An object taken out and put straight back goes to the end of the line.\<close>

lemma get_put_rotates:
  assumes "invar s" and "free s = x # xs" and "valid x" and "length (free s) \<le> cap s"
  shows "\<exists>s1 s2. get s = Some (Some x, s1) \<and> put s1 x = Some s2 \<and> invar s2 \<and> free s2 = xs @ [x]"
proof -
  from get_first [OF assms(1,2)] obtain s1
    where s1: "get s = Some (Some x, s1)" "invar s1" "free s1 = xs" "cap s1 = cap s" by blast
  with assms have "length (free s1) < cap s1" by simp
  with put_last [OF s1(2) assms(3)] s1 show ?thesis by blast
qed

end

end
