(* ===== verification/IocbPool.thy ===== *)
theory IocbPool
  imports Pool_Interface
begin

section \<open>The IOCB pool of a libaio context\<close>

text \<open>
  \<open>struct io_control\<close> with its reusable pool of \<open>struct iocb\<close>, and the operations that take a
  control block out of the pool and put one back. The pool array and the event array are
  reachable through their owner only, so their cells are fields of the record; the addresses
  of the two blocks stay in \<open>iocb_ptr\<close> and \<open>events_ptr\<close>, which is what \<open>free\<close> is given.
\<close>

text \<open>The user data of a control block: null, the marker \<open>(void *) -1\<close> of the dumb write that
  stops a poller, or a JNI global reference to the callback.\<close>

datatype cookie = DNull | DMinusOne | DRef nat

record iocb =
  aio_fildes :: int
  aio_lio_opcode :: int
  aio_buf :: addr
  aio_nbytes :: u64
  aio_offset :: int
  iocb_data :: cookie

record io_event =
  ev_obj :: addr
  ev_res :: u64

record io_control =
  ioContext :: addr
  events_ptr :: addr
  events_arr :: "io_event list"
  thisObject :: nat
  iocbLock :: mutex
  pollLock :: mutex
  iocb_ptr :: addr
  iocb_arr :: "addr list"
  queueSize :: int
  iocbPut :: int
  iocbGet :: int
  used :: int

definition lock_iocbLock :: "io_control \<Rightarrow> io_control option" where
  "lock_iocbLock c = do { l \<leftarrow> mutex_lock (iocbLock c); Some (c\<lparr>iocbLock := l\<rparr>) }"

definition unlock_iocbLock :: "io_control \<Rightarrow> io_control option" where
  "unlock_iocbLock c = do { l \<leftarrow> mutex_unlock (iocbLock c); Some (c\<lparr>iocbLock := l\<rparr>) }"

text \<open>\<open>getIOCB\<close>: the next control block of the pool, \<open>NULL\<close> when all are in use.\<close>

definition getIOCB :: "io_control \<Rightarrow> (addr \<times> io_control) option" where
  "getIOCB control = do {
     control \<leftarrow> lock_iocbLock control;
     (iocb, control) \<leftarrow>
       (if used control < queueSize control then do {
          let control = control\<lparr>used := used control + 1\<rparr>;
          iocb \<leftarrow> arr_get (iocb_arr control) (iocbGet control);
          let control = control\<lparr>iocbGet := iocbGet control + 1\<rparr>;
          let control =
            (if iocbGet control \<ge> queueSize control then control\<lparr>iocbGet := 0\<rparr> else control);
          Some (iocb, control) }
        else Some (NULL, control));
     control \<leftarrow> unlock_iocbLock control;
     Some (iocb, control) }"

text \<open>\<open>putIOCB\<close>: no check that the pool has room, as in the source.\<close>

definition putIOCB :: "io_control \<Rightarrow> addr \<Rightarrow> io_control option" where
  "putIOCB control iocbBack = do {
     control \<leftarrow> lock_iocbLock control;
     let control = control\<lparr>used := used control - 1\<rparr>;
     arr \<leftarrow> arr_set (iocb_arr control) (iocbPut control) iocbBack;
     let control = control\<lparr>iocb_arr := arr, iocbPut := iocbPut control + 1\<rparr>;
     let control =
       (if iocbPut control \<ge> queueSize control then control\<lparr>iocbPut := 0\<rparr> else control);
     unlock_iocbLock control }"

subsection \<open>The pool as a queue\<close>

definition pool_size :: "io_control \<Rightarrow> nat" where
  "pool_size c = nat (queueSize c)"

text \<open>The control blocks at rest: the cells from \<open>iocbGet\<close> on, as many as are not in use.\<close>

definition pool_free :: "io_control \<Rightarrow> addr list" where
  "pool_free c = ring_slice (iocb_arr c) (nat (iocbGet c)) (nat (queueSize c - used c))"

definition pool_inv :: "io_control \<Rightarrow> bool" where
  "pool_inv c \<longleftrightarrow>
     int (length (iocb_arr c)) = queueSize c
   \<and> 0 \<le> used c \<and> used c \<le> queueSize c
   \<and> 0 \<le> iocbGet c \<and> iocbGet c < queueSize c
   \<and> 0 \<le> iocbPut c \<and> iocbPut c < queueSize c
   \<and> iocbPut c = (iocbGet c + (queueSize c - used c)) mod queueSize c
   \<and> iocbLock c = MUnlocked
   \<and> NULL \<notin> set (pool_free c)"

lemmas pool_defs = getIOCB_def putIOCB_def lock_iocbLock_def unlock_iocbLock_def

lemma length_pool_free: "pool_inv c \<Longrightarrow> int (length (pool_free c)) = queueSize c - used c"
  by (simp add: pool_inv_def pool_free_def)

lemma length_iocb_arr: "pool_inv c \<Longrightarrow> length (iocb_arr c) = nat (queueSize c)"
  by (auto simp: pool_inv_def)

lemma pool_free_Nil_iff: "pool_inv c \<Longrightarrow> pool_free c = [] \<longleftrightarrow> used c = queueSize c"
  using length_pool_free [of c] by (auto simp: pool_inv_def)

lemma iocbLock_restore: "iocbLock c = MUnlocked \<Longrightarrow> c\<lparr>iocbLock := MUnlocked\<rparr> = c"
  by (cases c) simp

lemma getIOCB_full:
  assumes "pool_inv c" and "used c = queueSize c"
  shows "getIOCB c = Some (NULL, c)"
  using assms by (simp add: pool_inv_def pool_defs iocbLock_restore)

text \<open>With a free control block the call returns the oldest one and moves two counters.\<close>

lemma getIOCB_avail:
  assumes inv: "pool_inv c" and room: "used c < queueSize c"
  shows "getIOCB c = Some (hd (pool_free c),
    c\<lparr>used := used c + 1, iocbGet := (iocbGet c + 1) mod queueSize c\<rparr>)"
proof -
  from inv room have n: "nat (queueSize c - used c) = Suc (nat (queueSize c - used c - 1))"
    by (simp add: pool_inv_def)
  from inv have "nat (iocbGet c) < length (iocb_arr c)"
    by (auto simp: pool_inv_def)
  then have hd: "hd (pool_free c) = iocb_arr c ! nat (iocbGet c)"
    by (simp add: pool_free_def n ring_slice_Cons)
  have wrap: "(if queueSize c \<le> iocbGet c + 1 then 0 else iocbGet c + 1)
      = (iocbGet c + 1) mod queueSize c"
    using inv by (intro wrap_succ_int) (simp_all add: pool_inv_def)
  have "iocbLock c = MUnlocked" "0 \<le> iocbGet c" "iocbGet c < int (length (iocb_arr c))"
    using inv by (simp_all add: pool_inv_def)
  with room wrap hd show ?thesis
    by (cases c) (auto simp: pool_defs Let_def split: if_splits)
qed

lemma putIOCB_used:
  assumes inv: "pool_inv c"
  shows "putIOCB c p = Some (c\<lparr>used := used c - 1,
    iocb_arr := (iocb_arr c)[nat (iocbPut c) := p],
    iocbPut := (iocbPut c + 1) mod queueSize c\<rparr>)"
proof -
  have wrap: "(if queueSize c \<le> iocbPut c + 1 then 0 else iocbPut c + 1)
      = (iocbPut c + 1) mod queueSize c"
    using inv by (intro wrap_succ_int) (simp_all add: pool_inv_def)
  have "iocbLock c = MUnlocked" "0 \<le> iocbPut c" "iocbPut c < int (length (iocb_arr c))"
    using inv by (simp_all add: pool_inv_def)
  with wrap show ?thesis
    by (cases c) (auto simp: pool_defs Let_def split: if_splits)
qed

text \<open>The write index is where the free cells end.\<close>

lemma put_index:
  assumes "pool_inv c"
  shows "nat (iocbPut c) = (nat (iocbGet c) + nat (queueSize c - used c)) mod length (iocb_arr c)"
proof -
  from assms have "int (nat (iocbPut c))
      = int ((nat (iocbGet c) + nat (queueSize c - used c)) mod length (iocb_arr c))"
    by (auto simp: pool_inv_def zmod_int)
  then show ?thesis by (simp only: of_nat_eq_iff)
qed

lemma getIOCB_inv:
  assumes inv: "pool_inv c" and room: "used c < queueSize c"
    and get: "getIOCB c = Some (p, c')"
  shows "pool_inv c' \<and> p \<noteq> NULL \<and> pool_free c = p # pool_free c' \<and> used c' = used c + 1"
proof -
  let ?n = "nat (queueSize c - used c - 1)"
  from inv room have n: "nat (queueSize c - used c) = Suc ?n"
    by (simp add: pool_inv_def)
  from get getIOCB_avail [OF inv room]
  have p: "p = hd (pool_free c)"
    and c': "c' = c\<lparr>used := used c + 1, iocbGet := (iocbGet c + 1) mod queueSize c\<rparr>"
    by simp_all
  have g: "nat ((iocbGet c + 1) mod queueSize c) = Suc (nat (iocbGet c)) mod length (iocb_arr c)"
    using inv length_iocb_arr [OF inv] by (simp add: pool_inv_def nat_mod_distrib nat_add_distrib)
  have free': "pool_free c' = ring_slice (iocb_arr c) (Suc (nat (iocbGet c))) ?n"
    by (simp add: c' pool_free_def g ring_slice_mod diff_diff_eq)
  then have split: "pool_free c = p # pool_free c'"
    by (simp add: p pool_free_def n ring_slice_Cons)
  moreover have "(iocbGet c + (queueSize c - used c)) mod queueSize c
      = ((iocbGet c + 1) mod queueSize c + (queueSize c - (used c + 1))) mod queueSize c"
    unfolding mod_add_left_eq by (rule arg_cong) simp
  ultimately show ?thesis
    using inv room by (auto simp: pool_inv_def c')
qed

lemma putIOCB_keeps:
  assumes "pool_inv c" and "putIOCB c p = Some c'"
  shows "thisObject c' = thisObject c \<and> events_arr c' = events_arr c \<and> queueSize c' = queueSize c
    \<and> ioContext c' = ioContext c \<and> pollLock c' = pollLock c \<and> events_ptr c' = events_ptr c
    \<and> iocb_ptr c' = iocb_ptr c"
  using assms putIOCB_used [OF assms(1), of p] by auto

lemma putIOCB_inv:
  assumes inv: "pool_inv c" and busy: "0 < used c" and p: "p \<noteq> NULL"
    and put: "putIOCB c p = Some c'"
  shows "pool_inv c' \<and> pool_free c' = pool_free c @ [p] \<and> used c' = used c - 1"
proof -
  let ?n = "nat (queueSize c - used c)"
  from put putIOCB_used [OF inv, of p]
  have c': "c' = c\<lparr>used := used c - 1, iocb_arr := (iocb_arr c)[nat (iocbPut c) := p],
    iocbPut := (iocbPut c + 1) mod queueSize c\<rparr>" by simp
  have "?n < length (iocb_arr c)" using inv busy by (auto simp: pool_inv_def)
  then have "ring_slice ((iocb_arr c)[nat (iocbPut c) := p]) (nat (iocbGet c)) (Suc ?n)
      = ring_slice (iocb_arr c) (nat (iocbGet c)) ?n @ [p]"
    by (rule ring_slice_update_end [OF put_index [OF inv]])
  moreover have "nat (queueSize c - (used c - 1)) = Suc ?n"
    using inv by (simp add: pool_inv_def Suc_nat_eq_nat_zadd1 algebra_simps)
  ultimately have free': "pool_free c' = pool_free c @ [p]"
    by (simp add: pool_free_def c')
  have "(iocbPut c + 1) mod queueSize c
      = (iocbGet c + (queueSize c - (used c - 1))) mod queueSize c"
    using inv mod_add_left_eq [of "iocbGet c + (queueSize c - used c)" "queueSize c" 1]
    by (simp add: pool_inv_def algebra_simps)
  with free' inv busy p show ?thesis
    by (auto simp: pool_inv_def c')
qed

subsection \<open>The pool provides the interface\<close>

text \<open>\<open>getIOCB\<close> with its null result read as "nothing there".\<close>

definition getIOCB_opt :: "io_control \<Rightarrow> (addr option \<times> io_control) option" where
  "getIOCB_opt c = do {
     (p, c') \<leftarrow> getIOCB c;
     Some (if p = NULL then None else Some p, c') }"

interpretation iocb_pool:
  bounded_pool getIOCB_opt putIOCB pool_free pool_size pool_inv "\<lambda>p. p \<noteq> NULL"
proof unfold_locales
  fix c assume "pool_inv c" "pool_free c = []"
  then show "getIOCB_opt c = Some (None, c)"
    by (simp add: getIOCB_opt_def pool_free_Nil_iff getIOCB_full)
next
  fix c p ps assume inv: "pool_inv c" and free: "pool_free c = p # ps"
  then have room: "used c < queueSize c"
    using pool_free_Nil_iff [OF inv] by (auto simp: pool_inv_def)
  obtain c' where get: "getIOCB c = Some (p, c')" and c': "queueSize c' = queueSize c"
    using getIOCB_avail [OF inv room] free by simp
  with getIOCB_inv [OF inv room get] free
  show "\<exists>c'. getIOCB_opt c = Some (Some p, c') \<and> pool_inv c' \<and> pool_free c' = ps
      \<and> pool_size c' = pool_size c"
    by (auto simp: getIOCB_opt_def pool_size_def)
next
  fix c p assume inv: "pool_inv c" and p: "p \<noteq> NULL" and "length (pool_free c) < pool_size c"
  then have busy: "0 < used c"
    using length_pool_free [OF inv] by (simp add: pool_size_def)
  obtain c' where put: "putIOCB c p = Some c'" and c': "queueSize c' = queueSize c"
    using putIOCB_used [OF inv, of p] by simp
  with putIOCB_inv [OF inv busy p put]
  show "\<exists>c'. putIOCB c p = Some c' \<and> pool_inv c' \<and> pool_free c' = pool_free c @ [p]
      \<and> pool_size c' = pool_size c"
    by (auto simp: pool_size_def)
qed

subsection \<open>Properties of the pool\<close>

text \<open>C9: any sequence of \<open>getIOCB\<close> and \<open>putIOCB\<close> that never puts back more control blocks than
  the pool has room for behaves as a first-in first-out list of the free blocks: the same
  results, the same blocks left in the same order, the invariant kept.\<close>

theorem iocb_pool_refines_queue:
  assumes "pool_inv c" and "within (pool_size c) ops (length (pool_free c))"
    and "\<forall>p \<in> set (puts_of ops). p \<noteq> NULL"
  shows "\<exists>c'. run_pool getIOCB_opt putIOCB ops c = Some (fst (run_list ops (pool_free c)), c')
    \<and> pool_inv c' \<and> pool_free c' = snd (run_list ops (pool_free c)) \<and> pool_size c' = pool_size c"
  using assms by (rule iocb_pool.run_refines_list)

definition small_pool :: "int \<Rightarrow> io_control" where
  "small_pool k = \<lparr>ioContext = 9000, events_ptr = 31, events_arr = [], thisObject = 90,
     iocbLock = MUnlocked, pollLock = MUnlocked, iocb_ptr = 30, iocb_arr = [20, 21, 22],
     queueSize = 3, iocbPut = 0, iocbGet = k mod 3, used = k\<rparr>"

lemma small_pool_inv: "pool_inv (small_pool 0)" "pool_inv (small_pool 1)" "pool_inv (small_pool 3)"
  by (simp_all add: pool_inv_def pool_free_def small_pool_def ring_slice_def upt_rec)

lemma small_pool_free [simp]:
  "pool_free (small_pool 0) = [20, 21, 22]" "pool_free (small_pool 1) = [21, 22]"
  "pool_free (small_pool 3) = []"
  by (simp_all add: pool_free_def small_pool_def ring_slice_def upt_rec)

lemma small_pool_size [simp]: "pool_size (small_pool k) = 3" "used (small_pool k) = k"
  "queueSize (small_pool k) = 3"
  by (simp_all add: pool_size_def small_pool_def)

theorem iocb_pool_refines_queue_witness:
  "\<exists>c'. run_pool getIOCB_opt putIOCB [PGet, PPut 20, PGet, PGet, PGet, PGet] (small_pool 0)
      = Some ([Some 20, Some 21, Some 22, Some 20, None], c') \<and> pool_inv c' \<and> pool_free c' = []"
  using iocb_pool_refines_queue [of "small_pool 0" "[PGet, PPut 20, PGet, PGet, PGet, PGet]"]
    small_pool_inv(1) by auto

text \<open>\<open>getIOCB\<close> always returns with the lock released; it returns null exactly when every
  control block is in use, and then changes nothing; otherwise it returns the block that has
  been free longest and counts it as used.\<close>

theorem getIOCB_result:
  assumes "pool_inv c"
  shows "\<exists>p c'. getIOCB c = Some (p, c') \<and> pool_inv c'
    \<and> (p = NULL \<longleftrightarrow> used c = queueSize c) \<and> (p = NULL \<longrightarrow> c' = c)
    \<and> (p \<noteq> NULL \<longrightarrow> pool_free c = p # pool_free c' \<and> used c' = used c + 1)"
proof (cases "used c = queueSize c")
  case True
  with assms show ?thesis by (auto simp: getIOCB_full)
next
  case False
  with assms have "used c < queueSize c" by (simp add: pool_inv_def)
  with assms False show ?thesis
    using getIOCB_avail [of c] getIOCB_inv [of c] by blast
qed

theorem getIOCB_result_witness:
  "\<exists>c'. getIOCB (small_pool 1) = Some (21, c') \<and> pool_free c' = [22] \<and> used c' = 2"
  using getIOCB_result [OF small_pool_inv(2)] by auto

text \<open>Nothing protects the pool from a control block that is put back twice: with all blocks in
  use, two puts of the same block succeed and the next two calls of \<open>getIOCB\<close> both hand it out,
  so two requests would share it.\<close>

theorem duplicate_put_shares_block:
  assumes "pool_inv c" and "pool_free c = []" and "2 \<le> queueSize c" and "p \<noteq> NULL"
  shows "\<exists>c'. run_pool getIOCB_opt putIOCB [PPut p, PPut p, PGet, PGet] c = Some ([Some p, Some p], c')"
proof -
  have "within (pool_size c) [PPut p, PPut p, PGet, PGet] (length (pool_free c))"
    using assms(2,3) by (simp add: pool_size_def)
  from iocb_pool.run_refines_list [OF assms(1) this] assms(2,4) show ?thesis by auto
qed

theorem duplicate_put_shares_block_witness:
  "\<exists>c'. run_pool getIOCB_opt putIOCB [PPut 21, PPut 21, PGet, PGet] (small_pool 3)
      = Some ([Some 21, Some 21], c')"
  using duplicate_put_shares_block [OF small_pool_inv(3), of 21] by simp

end
