(* ===== verification/AioRing.thy ===== *)
theory AioRing
  imports IocbPool
begin

section \<open>Reaping completions from the kernel's ring in user space\<close>

text \<open>
  \<open>struct aio_ring\<close>, the completion ring that the kernel maps into the process, and
  \<open>ringio_get_events\<close>, which takes completions out of it without a system call when it can.
  The indices are unsigned 32-bit words and wrap; the count of available events is a signed
  \<open>int\<close> computed from their difference. \<open>io_getevents\<close> belongs to libaio: it is the
  parameter \<open>sys\<close>, a function of the ring and of the state \<open>'w\<close> of the world outside, which
  gives its return code, the events it wrote, the ring and the world afterwards.
\<close>

record aio_ring =
  ring_id :: u32
  nr :: u32
  head :: u32
  tail :: u32
  magic :: u32
  compat_features :: u32
  incompat_features :: u32
  header_length :: u32
  io_events :: "io_event list"

record timespec =
  tv_sec :: int
  tv_nsec :: int

type_synonym 'w getevents =
  "addr \<Rightarrow> int \<Rightarrow> int \<Rightarrow> timespec option \<Rightarrow> aio_ring \<Rightarrow> 'w \<Rightarrow> int \<times> io_event list \<times> aio_ring \<times> 'w"

definition AIO_RING_MAGIC :: u32 where "AIO_RING_MAGIC = 0xa10a10a1"
definition AIO_RING_INCOMPAT_FEATURES :: u32 where "AIO_RING_INCOMPAT_FEATURES = 0"
definition RING_REAPER :: bool where "RING_REAPER = True"

definition has_usable_ring :: "aio_ring \<Rightarrow> bool" where
  "has_usable_ring ring \<longleftrightarrow>
     magic ring = AIO_RING_MAGIC \<and> incompat_features ring = AIO_RING_INCOMPAT_FEATURES"

text \<open>The system call, its events copied to the front of the caller's array.\<close>

definition io_getevents ::
  "'w getevents \<Rightarrow> addr \<Rightarrow> int \<Rightarrow> int \<Rightarrow> io_event list \<Rightarrow> timespec option \<Rightarrow> aio_ring \<Rightarrow> 'w
    \<Rightarrow> (int \<times> io_event list \<times> aio_ring \<times> 'w) option" where
  "io_getevents sys aio_ctx min_nr max_nr events timeout ring w =
     (let (r, evs, ring', w') = sys aio_ctx min_nr max_nr timeout ring w
      in if length evs \<le> length events
         then Some (r, evs @ drop (length evs) events, ring', w') else None)"

text \<open>The copying loop; the first counter is the number of rounds left.\<close>

fun reap_loop ::
  "bool \<Rightarrow> u32 \<Rightarrow> io_event list \<Rightarrow> nat \<Rightarrow> nat \<Rightarrow> u32 \<Rightarrow> io_event list
    \<Rightarrow> (io_event list \<times> u32) option" where
  "reap_loop needMod ring_nr ring_events 0 i head_nr events = Some (events, head_nr)"
| "reap_loop needMod ring_nr ring_events (Suc k) i head_nr events = do {
     ev \<leftarrow> arr_get ring_events (uint head_nr);
     events \<leftarrow> arr_set events (int i) ev;
     head_nr \<leftarrow> (if needMod
               then (if ring_nr = 0 then None else Some ((head_nr + 1) mod ring_nr))
               else Some (head_nr + 1));
     reap_loop needMod ring_nr ring_events k (Suc i) head_nr events }"

text \<open>\<open>int available = tail - head\<close>, corrected by the ring size after a wrap.\<close>

definition ring_available :: "u32 \<Rightarrow> u32 \<Rightarrow> u32 \<Rightarrow> int" where
  "ring_available ring_nr head_nr tail_nr =
     (let available = sint (tail_nr - head_nr)
      in if available < 0 then sint (word_of_int available + ring_nr) else available)"

definition ringio_get_events ::
  "'w getevents \<Rightarrow> bool \<Rightarrow> addr \<Rightarrow> int \<Rightarrow> int \<Rightarrow> io_event list \<Rightarrow> timespec option \<Rightarrow> aio_ring \<Rightarrow> 'w
    \<Rightarrow> (int \<times> io_event list \<times> aio_ring \<times> 'w) option" where
  "ringio_get_events sys forceSysCall aio_ctx min_nr max_nr events timeout ring w =
     (let sys_call = io_getevents sys aio_ctx min_nr max_nr events timeout ring w
      in if RING_REAPER \<and> \<not> forceSysCall \<and> has_usable_ring ring then
           (let ring_nr = nr ring; head_nr = head ring; tail_nr = tail ring;
                available = ring_available ring_nr head_nr tail_nr
            in if available \<ge> min_nr
                  \<or> (case timeout of None \<Rightarrow> False | Some t \<Rightarrow> tv_sec t = 0 \<and> tv_nsec t = 0) then
                 (if available = 0 then Some (0, events, ring, w)
                  else if available \<ge> max_nr then sys_call
                  else
                    (let available_nr = (if available < max_nr then available else to_int32 max_nr);
                         needMod = (head_nr + word_of_int available_nr \<ge> ring_nr)
                     in do {
                       (events, head_nr) \<leftarrow>
                         reap_loop needMod ring_nr (io_events ring) (nat available_nr) 0 head_nr events;
                       Some (available_nr, events, ring\<lparr>head := head_nr\<rparr>, w) }))
               else sys_call)
         else sys_call)"

subsection \<open>The ring as a queue\<close>

definition ring_inv :: "aio_ring \<Rightarrow> bool" where
  "ring_inv ring \<longleftrightarrow>
     unat (nr ring) < 2 ^ 31
   \<and> length (io_events ring) = unat (nr ring)
   \<and> unat (head ring) < unat (nr ring)
   \<and> unat (tail ring) < unat (nr ring)"

definition ring_count :: "aio_ring \<Rightarrow> nat" where
  "ring_count ring = (unat (tail ring) + unat (nr ring) - unat (head ring)) mod unat (nr ring)"

definition ring_pending :: "aio_ring \<Rightarrow> io_event list" where
  "ring_pending ring = ring_slice (io_events ring) (unat (head ring)) (ring_count ring)"

lemma length_ring_pending [simp]: "length (ring_pending ring) = ring_count ring"
  by (simp add: ring_pending_def)

lemma ring_count_less: "ring_inv ring \<Longrightarrow> ring_count ring < unat (nr ring)"
  by (simp add: ring_inv_def ring_count_def)

lemma window_nat:
  assumes "h < n" and "t < (n::nat)"
  shows "(t + n - h) mod n = (if h \<le> t then t - h else t + n - h)"
proof (cases "h \<le> t")
  case True
  then have "(t + n - h) mod n = ((t - h) + n) mod n" by simp
  also have "\<dots> = t - h" using assms by (simp del: add_diff_assoc2)
  finally show ?thesis using True by simp
qed (use assms in simp)

lemma ring_count_cases:
  assumes "ring_inv ring"
  shows "ring_count ring =
    (if unat (head ring) \<le> unat (tail ring) then unat (tail ring) - unat (head ring)
     else unat (tail ring) + unat (nr ring) - unat (head ring))"
  unfolding ring_count_def using assms by (intro window_nat) (simp_all add: ring_inv_def)

lemma window_int:
  assumes "h < n" and "t < (n::nat)"
  shows "int ((t + n - h) mod n) =
    (if int t - int h < 0 then int t - int h + int n else int t - int h)"
  unfolding window_nat [OF assms] using assms by auto

text \<open>The signed arithmetic on wrapped indices computes the number of pending events.\<close>

lemma nat_diff_bounds:
  "x < 2 ^ 31 \<Longrightarrow> y < 2 ^ 31 \<Longrightarrow> - (2 ^ 31) \<le> int x - int y \<and> int x - int y < 2 ^ 31"
  by auto

lemma nat_sum_bounds:
  "x < 2 ^ 31 \<Longrightarrow> n < 2 ^ 31 \<Longrightarrow> int y - int x < 0 \<Longrightarrow>
    - (2 ^ 31) \<le> int y - int x + int n \<and> int y - int x + int n < 2 ^ 31"
  by auto

lemma sint_diff_small:
  fixes a b :: u32
  assumes "unat a < 2 ^ 31" and "unat b < 2 ^ 31"
  shows "sint (a - b) = int (unat a) - int (unat b)"
proof -
  have "a - b = word_of_int (int (unat a) - int (unat b))"
    by (simp add: wi_hom_sub [symmetric])
  moreover have "sint (word_of_int (int (unat a) - int (unat b)) :: u32) = int (unat a) - int (unat b)"
    using nat_diff_bounds [OF assms] by (intro sint_word_of_int_id) blast+
  ultimately show ?thesis by (simp only:)
qed

lemma ring_available_count:
  assumes inv: "ring_inv ring"
  shows "ring_available (nr ring) (head ring) (tail ring) = int (ring_count ring)"
proof -
  let ?d = "int (unat (tail ring)) - int (unat (head ring))"
  have d: "sint (tail ring - head ring) = ?d"
    using inv by (intro sint_diff_small) (simp_all add: ring_inv_def)
  have nr: "word_of_int ?d + nr ring = word_of_int (?d + int (unat (nr ring)))"
    by (simp add: wi_hom_add [symmetric])
  have w: "sint (word_of_int ?d + nr ring) = ?d + int (unat (nr ring))" if "?d < 0"
  proof -
    from inv have "unat (head ring) < 2 ^ 31" "unat (nr ring) < 2 ^ 31"
      by (simp_all add: ring_inv_def)
    from nat_sum_bounds [OF this that] show ?thesis
      unfolding nr by (intro sint_word_of_int_id) blast+
  qed
  have "int (ring_count ring) = (if ?d < 0 then ?d + int (unat (nr ring)) else ?d)"
    unfolding ring_count_def using inv by (intro window_int) (simp_all add: ring_inv_def)
  then show ?thesis
    unfolding ring_available_def d Let_def using w by presburger
qed

subsection \<open>The copying loop\<close>

lemma take_Suc_update: "i < length xs \<Longrightarrow> take (Suc i) (xs[i := x]) = take i xs @ [x]"
  by (simp add: take_Suc_conv_app_nth)

lemma arr_get_unat:
  fixes h :: u32
  assumes "unat h < length xs"
  shows "arr_get xs (uint h) = Some (xs ! unat h)"
proof -
  have u: "uint h = int (unat h)" by simp
  show ?thesis using assms unfolding arr_get_def u of_nat_less_iff nat_int by simp
qed

lemma unat_succ_small: "unat (h :: u32) + 1 < 2 ^ 32 \<Longrightarrow> unat (h + 1) = unat h + 1"
  by (simp add: unat_word_ariths)

text \<open>Advancing the head: with \<open>%\<close>, or without it where no wrap can occur.\<close>

lemma advance_head:
  fixes h n :: u32
  assumes "unat n < 2 ^ 31" and "unat h < unat n" and "needMod \<or> unat h + 1 < unat n"
  shows "(if needMod then (if n = 0 then None else Some ((h + 1) mod n)) else Some (h + 1))
      = Some (if needMod then (h + 1) mod n else h + 1)"
    and "unat (if needMod then (h + 1) mod n else h + 1) = (unat h + 1) mod unat n"
proof -
  from assms have s: "unat (h + 1) = unat h + 1" by (intro unat_succ_small) simp
  from assms(2) have "n \<noteq> 0" by auto
  then show "(if needMod then (if n = 0 then None else Some ((h + 1) mod n)) else Some (h + 1))
      = Some (if needMod then (h + 1) mod n else h + 1)" by simp
  show "unat (if needMod then (h + 1) mod n else h + 1) = (unat h + 1) mod unat n"
    using s assms(3) by (auto simp: unat_mod_distrib)
qed

lemma reap_loop_slice:
  assumes "length evs = unat n" and "unat n < 2 ^ 31" and "unat h < unat n"
    and "i + k \<le> length events" and "needMod \<or> unat h + k < unat n"
  shows "reap_loop needMod n evs k i h events =
    Some (take i events @ ring_slice evs (unat h) k @ drop (i + k) events,
      word_of_nat ((unat h + k) mod unat n))"
  using assms
proof (induction k arbitrary: i h events)
  case 0
  then show ?case by simp
next
  case (Suc k)
  let ?h = "if needMod then (h + 1) mod n else h + 1"
  let ?ev = "evs ! unat h"
  have small: "needMod \<or> unat h + 1 < unat n" using Suc.prems(5) by auto
  note adv = advance_head [OF Suc.prems(2,3) small]
  have get: "arr_get evs (uint h) = Some ?ev"
    using Suc.prems(1,3) by (intro arr_get_unat) simp
  have set: "arr_set events (int i) ?ev = Some (events[i := ?ev])"
    using Suc.prems(4) by (simp add: arr_set_def)
  have "reap_loop needMod n evs (Suc k) i h events
      = reap_loop needMod n evs k (Suc i) ?h (events[i := ?ev])"
    unfolding reap_loop.simps get set bind.bind_lunit adv(1) by simp
  also have "\<dots> = Some (take (Suc i) (events[i := ?ev]) @ ring_slice evs (unat ?h) k
        @ drop (Suc i + k) (events[i := ?ev]), word_of_nat ((unat ?h + k) mod unat n))"
  proof (rule Suc.IH [OF Suc.prems(1,2)])
    show "unat ?h < unat n" using Suc.prems(3) unfolding adv(2) by simp
    show "Suc i + k \<le> length (events[i := ?ev])" using Suc.prems(4) by simp
    show "needMod \<or> unat ?h + k < unat n" using Suc.prems(5) unfolding adv(2) by auto
  qed
  also have "ring_slice evs (unat ?h) k = ring_slice evs (Suc (unat h)) k"
    unfolding adv(2) Suc.prems(1) [symmetric] ring_slice_mod by simp
  also have "(unat ?h + k) mod unat n = (unat h + Suc k) mod unat n"
    unfolding adv(2) by (simp add: mod_add_left_eq)
  also have "ring_slice evs (unat h) (Suc k) = ?ev # ring_slice evs (Suc (unat h)) k"
    using Suc.prems(1,3) by (simp add: ring_slice_Cons)
  then have "take (Suc i) (events[i := ?ev]) @ ring_slice evs (Suc (unat h)) k
        @ drop (Suc i + k) (events[i := ?ev])
      = take i events @ ring_slice evs (unat h) (Suc k) @ drop (i + Suc k) events"
    using Suc.prems(4) by (simp add: take_Suc_update)
  finally show ?case .
qed

text \<open>Skipping \<open>%\<close> where no wrap can occur changes nothing.\<close>

lemma needMod_iff:
  fixes h n :: u32
  assumes "unat n < 2 ^ 31" and "unat h < unat n" and "k < unat n"
  shows "h + word_of_int (int k) \<ge> n \<longleftrightarrow> unat n \<le> unat h + k"
proof -
  from assms have "unat (h + word_of_nat k) = unat h + k"
    by (simp add: unat_word_ariths unat_of_nat)
  then show ?thesis by (simp add: word_le_nat_alt)
qed

lemma ring_head_to_tail:
  assumes "ring_inv ring"
  shows "word_of_nat ((unat (head ring) + ring_count ring) mod unat (nr ring)) = tail ring"
proof -
  have "(unat (head ring) + ring_count ring) mod unat (nr ring) = unat (tail ring)"
    unfolding ring_count_cases [OF assms] using assms by (auto simp: ring_inv_def)
  then show ?thesis by simp
qed

subsection \<open>The whole reaper\<close>

definition zero_timeout :: "timespec option \<Rightarrow> bool" where
  "zero_timeout timeout = (case timeout of None \<Rightarrow> False | Some t \<Rightarrow> tv_sec t = 0 \<and> tv_nsec t = 0)"

text \<open>When the code turns to the system call, in terms of the pending events.\<close>

definition needs_sys_call :: "bool \<Rightarrow> int \<Rightarrow> int \<Rightarrow> timespec option \<Rightarrow> aio_ring \<Rightarrow> bool" where
  "needs_sys_call forceSysCall min_nr max_nr timeout ring \<longleftrightarrow>
     forceSysCall \<or> \<not> has_usable_ring ring
   \<or> (int (ring_count ring) < min_nr \<and> \<not> zero_timeout timeout)
   \<or> (ring_count ring \<noteq> 0 \<and> max_nr \<le> int (ring_count ring))"

lemma ring_count_0_iff: "ring_inv ring \<Longrightarrow> ring_count ring = 0 \<longleftrightarrow> head ring = tail ring"
  by (auto simp: ring_count_cases ring_inv_def word_unat_eq_iff split: if_splits)

lemma ring_head_same: "head ring = h \<Longrightarrow> ring\<lparr>head := h\<rparr> = ring"
  by (cases ring) simp

lemma reap_loop_pending:
  assumes inv: "ring_inv ring" and room: "ring_count ring \<le> length events"
  shows "reap_loop (head ring + word_of_int (int (ring_count ring)) \<ge> nr ring) (nr ring)
      (io_events ring) (ring_count ring) 0 (head ring) events
    = Some (ring_pending ring @ drop (ring_count ring) events, tail ring)"
proof -
  let ?mod = "head ring + word_of_int (int (ring_count ring)) \<ge> nr ring"
  have "?mod \<or> unat (head ring) + ring_count ring < unat (nr ring)"
    using needMod_iff [of "nr ring" "head ring" "ring_count ring"] inv ring_count_less [OF inv]
    by (auto simp: ring_inv_def)
  from reap_loop_slice [OF _ _ _ _ this, of "io_events ring" 0 events] inv room
  show ?thesis
    by (simp add: ring_inv_def ring_head_to_tail [OF inv] ring_pending_def)
qed

lemma ringio_get_events_eq:
  assumes inv: "ring_inv ring" and room: "ring_count ring \<le> length events"
  shows "ringio_get_events sys forceSysCall aio_ctx min_nr max_nr events timeout ring w =
    (if needs_sys_call forceSysCall min_nr max_nr timeout ring
     then io_getevents sys aio_ctx min_nr max_nr events timeout ring w
     else Some (int (ring_count ring), ring_pending ring @ drop (ring_count ring) events,
       ring\<lparr>head := tail ring\<rparr>, w))"
proof -
  note [simp] = ring_available_count [OF inv]
  have empty: "ring_pending ring = [] \<and> ring\<lparr>head := tail ring\<rparr> = ring" if "ring_count ring = 0"
    using that ring_count_0_iff [OF inv] by (simp add: ring_pending_def ring_head_same)
  show ?thesis
    using reap_loop_pending [OF inv room] empty
    by (auto simp: ringio_get_events_def needs_sys_call_def RING_REAPER_def Let_def
      zero_timeout_def split: option.splits)
qed

lemma ring_reaped:
  assumes "ring_inv ring"
  shows "ring_inv (ring\<lparr>head := tail ring\<rparr>)" and "ring_pending (ring\<lparr>head := tail ring\<rparr>) = []"
  using assms by (auto simp: ring_inv_def ring_pending_def ring_count_def)

subsection \<open>Properties of the reaper\<close>

definition wrapped_ring :: aio_ring where
  "wrapped_ring = \<lparr>ring_id = 1, nr = 4, head = 3, tail = 1, magic = AIO_RING_MAGIC,
     compat_features = 1, incompat_features = AIO_RING_INCOMPAT_FEATURES, header_length = 32,
     io_events = [\<lparr>ev_obj = 20, ev_res = 0\<rparr>, \<lparr>ev_obj = 21, ev_res = 1\<rparr>, \<lparr>ev_obj = 22, ev_res = 2\<rparr>,
       \<lparr>ev_obj = 23, ev_res = 3\<rparr>]\<rparr>"

lemma wrapped_ring_inv: "ring_inv wrapped_ring"
  by (simp add: ring_inv_def wrapped_ring_def)

lemma wrapped_ring_pending [simp]:
  "ring_count wrapped_ring = 2"
  "ring_pending wrapped_ring = [\<lparr>ev_obj = 23, ev_res = 3\<rparr>, \<lparr>ev_obj = 20, ev_res = 0\<rparr>]"
  by (simp_all add: ring_pending_def ring_count_def wrapped_ring_def ring_slice_def upt_rec)

lemma wrapped_ring_fields [simp]:
  "has_usable_ring wrapped_ring" "head wrapped_ring = 3" "tail wrapped_ring = 1" "nr wrapped_ring = 4"
  by (simp_all add: wrapped_ring_def has_usable_ring_def)

text \<open>C3: the whole of \<open>ringio_get_events\<close>, on every well-formed ring and with room for the pending
  events. It makes the system call exactly when it is forced to, when the ring is not one it
  knows, when fewer events than the minimum are pending and the timeout is not zero, or when
  at least the maximum is pending (the workaround for the kernel bug of ARTEMIS-2800).
  Otherwise it returns the pending events in the order the kernel completed them, leaves the
  rest of the caller's array alone, advances the head to the tail, and makes no system call;
  no access is out of bounds.\<close>

theorem ringio_get_events_correct:
  assumes "ring_inv ring" and "ring_count ring \<le> length events"
  shows "ringio_get_events sys forced aio_ctx min_nr max_nr events timeout ring w =
    (if forced \<or> \<not> has_usable_ring ring
       \<or> (int (ring_count ring) < min_nr \<and> \<not> zero_timeout timeout)
       \<or> (ring_count ring \<noteq> 0 \<and> max_nr \<le> int (ring_count ring))
     then io_getevents sys aio_ctx min_nr max_nr events timeout ring w
     else Some (int (ring_count ring), ring_pending ring @ drop (ring_count ring) events,
       ring\<lparr>head := tail ring\<rparr>, w))"
  unfolding ringio_get_events_eq [OF assms] needs_sys_call_def by (rule refl)

theorem ringio_get_events_correct_witness:
  "\<forall>(sys :: nat getevents) w.
    ringio_get_events sys False 9000 1 3 (replicate 3 \<lparr>ev_obj = 0, ev_res = 0\<rparr>) None wrapped_ring w =
    Some (2, [\<lparr>ev_obj = 23, ev_res = 3\<rparr>, \<lparr>ev_obj = 20, ev_res = 0\<rparr>, \<lparr>ev_obj = 0, ev_res = 0\<rparr>],
      wrapped_ring\<lparr>head := 1\<rparr>, w)"
proof (intro allI)
  fix sys :: "nat getevents" and w
  show "ringio_get_events sys False 9000 1 3 (replicate 3 \<lparr>ev_obj = 0, ev_res = 0\<rparr>) None wrapped_ring w =
    Some (2, [\<lparr>ev_obj = 23, ev_res = 3\<rparr>, \<lparr>ev_obj = 20, ev_res = 0\<rparr>, \<lparr>ev_obj = 0, ev_res = 0\<rparr>],
      wrapped_ring\<lparr>head := 1\<rparr>, w)"
    using ringio_get_events_correct [OF wrapped_ring_inv, of "replicate 3 \<lparr>ev_obj = 0, ev_res = 0\<rparr>"
        sys False 9000 1 3 None w]
    by (simp add: zero_timeout_def)
qed

text \<open>The signed 32-bit computation of \<open>available\<close> from the unsigned indices, with its correction
  after a wrap, is the distance from head to tail around the ring, for every ring of fewer than
  \<open>2 ^ 31\<close> slots.\<close>

theorem available_is_distance:
  assumes "ring_inv ring"
  shows "ring_available (nr ring) (head ring) (tail ring)
    = int ((unat (tail ring) + unat (nr ring) - unat (head ring)) mod unat (nr ring))"
  using ring_available_count [OF assms] by (simp only: ring_count_def)

theorem available_is_distance_witness: "ring_available 4 3 1 = 2"
  using available_is_distance [OF wrapped_ring_inv] by (simp add: wrapped_ring_def)

text \<open>C26: dropping the modulo where the batch does not reach the end of the ring is sound: the loop
  with the flag the code computes gives the same events and the same head as the loop that
  always takes the remainder.\<close>

theorem needMod_optimisation:
  assumes "ring_inv ring" and "k < unat (nr ring)" and "k \<le> length events"
  shows "reap_loop (head ring + word_of_int (int k) \<ge> nr ring) (nr ring) (io_events ring) k 0
      (head ring) events
    = reap_loop True (nr ring) (io_events ring) k 0 (head ring) events"
proof -
  have "(head ring + word_of_int (int k) \<ge> nr ring) \<or> unat (head ring) + k < unat (nr ring)"
    using needMod_iff [of "nr ring" "head ring" k] assms by (auto simp: ring_inv_def)
  with assms show ?thesis
    by (simp add: ring_inv_def reap_loop_slice [where i = 0])
qed

theorem needMod_optimisation_witness:
  "reap_loop ((3::u32) + word_of_int (int 2) \<ge> 4) 4 (io_events wrapped_ring) 2 0 3
      (replicate 2 \<lparr>ev_obj = 0, ev_res = 0\<rparr>)
    = reap_loop True 4 (io_events wrapped_ring) 2 0 3 (replicate 2 \<lparr>ev_obj = 0, ev_res = 0\<rparr>)"
  using needMod_optimisation [OF wrapped_ring_inv, of 2 "replicate 2 \<lparr>ev_obj = 0, ev_res = 0\<rparr>"] by simp

text \<open>Reaping without a system call loses nothing and repeats nothing: the events delivered are
  exactly those that were pending, nothing is pending afterwards, and the ring stays
  well-formed.\<close>

theorem ring_reap_exact:
  assumes "ring_inv ring" and "ring_count ring \<le> length events"
    and "\<not> needs_sys_call forced min_nr max_nr timeout ring"
    and "ringio_get_events sys forced aio_ctx min_nr max_nr events timeout ring w
      = Some (n, events', ring', w')"
  shows "take (nat n) events' = ring_pending ring \<and> ring_pending ring' = [] \<and> ring_inv ring'
    \<and> io_events ring' = io_events ring \<and> tail ring' = tail ring \<and> w' = w"
proof -
  from assms(3,4) have "n = int (ring_count ring)" "ring' = ring\<lparr>head := tail ring\<rparr>" "w' = w"
    "events' = ring_pending ring @ drop (ring_count ring) events"
    unfolding ringio_get_events_eq [OF assms(1,2)] by simp_all
  with ring_reaped [OF assms(1)] show ?thesis by simp
qed

theorem ring_reap_exact_witness:
  "ring_pending (wrapped_ring\<lparr>head := 1\<rparr>) = []"
proof -
  have "ringio_get_events sys False 9000 1 3 (replicate 3 \<lparr>ev_obj = 0, ev_res = 0\<rparr>) None wrapped_ring w =
    Some (2, [\<lparr>ev_obj = 23, ev_res = 3\<rparr>, \<lparr>ev_obj = 20, ev_res = 0\<rparr>, \<lparr>ev_obj = 0, ev_res = 0\<rparr>],
      wrapped_ring\<lparr>head := 1\<rparr>, w)" for sys :: "nat getevents" and w
    by (simp add: ringio_get_events_eq [OF wrapped_ring_inv] needs_sys_call_def)
  from ring_reap_exact [OF wrapped_ring_inv _ _ this] show ?thesis
    by (simp add: needs_sys_call_def)
qed
subsection \<open>A tail that is not what it should be\<close>

lemma needMod_any:
  fixes h n :: u32
  assumes "unat n < 2 ^ 31" and "unat h < unat n" and "k < 2 ^ 31"
  shows "h + word_of_int (int k) \<ge> n \<longleftrightarrow> unat n \<le> unat h + k"
proof -
  have "unat h + k < 2 ^ 32" using assms by simp
  then have "unat (h + word_of_nat k) = unat h + k"
    using assms(3) by (simp add: unat_word_ariths unat_of_nat)
  then show ?thesis by (simp add: word_le_nat_alt)
qed

lemma ring_available_small: "nat (ring_available n h t) < 2 ^ 31"
  using sint_range_size [of "t - h"] sint_range_size [of "word_of_int (sint (t - h)) + n"]
  by (auto simp: ring_available_def Let_def word_size nat_less_iff)

text \<open>C25: the reaper stays in bounds even when the kernel's \<open>tail\<close> is garbage (the race of ARTEMIS-2800): for
  every value of \<open>tail\<close>, and whatever the ring holds, the call never reads outside the ring and
  never writes outside the caller's array, and it leaves a valid head.\<close>

theorem corrupt_tail_in_bounds:
  assumes "length (io_events ring) = unat (nr ring)" and "unat (nr ring) < 2 ^ 31"
    and "unat (head ring) < unat (nr ring)" and "max_nr \<le> int (length events)"
    and "sys aio_ctx min_nr max_nr timeout ring w = (r, evs, ring_b, w_b)"
    and "length evs \<le> length events" and "unat (head ring_b) < unat (nr ring_b)"
  shows "\<exists>n events' ring' w'. ringio_get_events sys forced aio_ctx min_nr max_nr events timeout ring w
      = Some (n, events', ring', w') \<and> length events' = length events
    \<and> unat (head ring') < unat (nr ring')"
proof -
  let ?a = "ring_available (nr ring) (head ring) (tail ring)"
  let ?mod = "head ring + word_of_int ?a \<ge> nr ring"
  have sys: "io_getevents sys aio_ctx min_nr max_nr events timeout ring w
      = Some (r, evs @ drop (length evs) events, ring_b, w_b)"
    using assms(5,6) by (simp add: io_getevents_def)
  have copy: "\<exists>events' h. reap_loop ?mod (nr ring) (io_events ring) (nat ?a) 0 (head ring) events
      = Some (events', h) \<and> length events' = length events \<and> unat h < unat (nr ring)"
    if "?a < max_nr"
  proof -
    have room: "0 + nat ?a \<le> length events" using that assms(4) by simp
    have small: "?mod \<or> unat (head ring) + nat ?a < unat (nr ring)"
    proof (cases "0 \<le> ?a")
      case True
      then show ?thesis
        using needMod_any [OF assms(2,3) ring_available_small [of "nr ring" "head ring" "tail ring"]]
        by (simp add: not_le [symmetric] del: not_le)
    qed (use assms(3) in simp)
    note run = reap_loop_slice [OF assms(1-3) room small]
    have "(unat (head ring) + nat ?a) mod unat (nr ring) < unat (nr ring)" using assms(3) by simp
    moreover from this have "(unat (head ring) + nat ?a) mod unat (nr ring) < 2 ^ 32"
      using assms(2) by simp
    ultimately show ?thesis using run room by (simp add: unat_of_nat)
  qed
  show ?thesis
    using sys copy assms(3,6,7)
    by (auto simp: ringio_get_events_def Let_def RING_REAPER_def)
qed


theorem corrupt_tail_in_bounds_witness:
  "\<exists>n events' ring' w'. ringio_get_events (\<lambda>ctx min max t ring w. (-11, [], ring, w)) False 9000 1 3
      (replicate 3 \<lparr>ev_obj = 0, ev_res = 0\<rparr>) None (wrapped_ring\<lparr>tail := 0xdeadbeef\<rparr>) (0::nat)
      = Some (n, events', ring', w') \<and> length events' = 3"
  using corrupt_tail_in_bounds [where ring = "wrapped_ring\<lparr>tail := 0xdeadbeef\<rparr>" and max_nr = 3
      and events = "replicate 3 \<lparr>ev_obj = 0, ev_res = 0\<rparr>" and r = "-11" and evs = "[]" and w = "0::nat"
      and ring_b = "wrapped_ring\<lparr>tail := 0xdeadbeef\<rparr>" and w_b = 0
      and sys = "\<lambda>ctx min max t ring w. (-11, [], ring, w)" and forced = False
      and aio_ctx = 9000 and min_nr = 1 and timeout = None]
  by (simp add: wrapped_ring_def) blast

end
