(* ===== verification/Machine.thy ===== *)
theory Machine
  imports AioRing
begin

section \<open>The state of the native library and the world it calls\<close>

text \<open>
  One record holds what the functions of the C file share: the global variables of the file,
  the C heap (one typed partial map per kind of block, one counter of addresses), the rings
  mapped by the kernel, and the part of the JVM the code owns (the pending exception, the
  live global references, the strings it has pinned). \<open>log\<close> lists the effects on the
  outside in the order they happen; \<open>world\<close> is everything else.

  Functions that are not in the repository (libaio, JNI, the system calls of the C library)
  are fields of \<open>env\<close>, a parameter of every definition that calls one. They read and change
  \<open>world\<close> only. Whether \<open>malloc\<close> succeeds is also a field; the addresses it gives are fresh.
\<close>

type_synonym jobject = nat
type_synonym jstring = string

datatype jexc =
    RuntimeException "string option"
  | IOException "string option"
  | OutOfMemoryError
  | ArrayIndexOutOfBoundsException

datatype jcall = CallOnError jobject int string | CallDone jobject jobject

datatype effect =
    ESubmit addr addr int
  | EFdatasync int
  | EUpcall jcall
  | EDeleteGlobalRef nat
  | EStdout string
  | EStderr string
  | EOpen string bool int
  | EClose int
  | EUnlink string
  | EWrite int nat int
  | ELseek int
  | EFsync int
  | EFallocate int int
  | EQueueRelease addr

record stat =
  st_size :: int
  st_blksize :: int

record 'w machine =
  forceSysCall :: bool
  dumbWriteHandler :: int
  dumbPath :: string
  oneMegaBuffer :: addr
  oneMegaMutex :: mutex
  submitClass :: nat
  errorMethod :: nat
  doneMethod :: nat
  libaioContextDone :: nat
  libaioContextClass :: nat
  runtimeExceptionClass :: nat
  ioExceptionClass :: nat
  errno :: int
  ctls :: "addr \<rightharpoonup> io_control"
  iocbs :: "addr \<rightharpoonup> iocb"
  blocks :: "addr \<rightharpoonup> byte list"
  arrays :: "addr \<rightharpoonup> u64"
  cstrings :: "addr \<rightharpoonup> string"
  next_addr :: addr
  rings :: "addr \<rightharpoonup> aio_ring"
  exc :: "jexc option"
  grefs :: "nat \<rightharpoonup> jobject"
  utf_pins :: nat
  log :: "effect list"
  world :: 'w

record 'w env =
  env_malloc :: "u64 \<Rightarrow> 'w \<Rightarrow> bool \<times> 'w"
  env_posix_memalign :: "u64 \<Rightarrow> u64 \<Rightarrow> 'w \<Rightarrow> int \<times> 'w"
  env_asprintf :: "'w \<Rightarrow> bool \<times> 'w"
  env_mutex_init :: "'w \<Rightarrow> int \<times> 'w"
  env_strerror :: "int \<Rightarrow> string"
  env_io_queue_init :: "int \<Rightarrow> 'w \<Rightarrow> int \<times> addr \<times> aio_ring \<times> 'w"
  env_io_submit :: "addr \<Rightarrow> addr \<Rightarrow> iocb \<Rightarrow> 'w \<Rightarrow> int \<times> 'w"
  env_getevents :: "'w getevents"
  env_prep_pwrite :: "iocb \<Rightarrow> int \<Rightarrow> addr \<Rightarrow> u64 \<Rightarrow> int \<Rightarrow> iocb"
  env_prep_pread :: "iocb \<Rightarrow> int \<Rightarrow> addr \<Rightarrow> u64 \<Rightarrow> int \<Rightarrow> iocb"
  env_GetEnv :: "'w \<Rightarrow> bool"
  env_FindClass :: "string \<Rightarrow> 'w \<Rightarrow> nat \<times> 'w"
  env_GetMethodID :: "nat \<Rightarrow> string \<Rightarrow> string \<Rightarrow> 'w \<Rightarrow> nat \<times> 'w"
  env_GetDirectBufferAddress :: "jobject \<Rightarrow> 'w \<Rightarrow> addr"
  env_NewDirectByteBuffer :: "addr \<Rightarrow> int \<Rightarrow> 'w \<Rightarrow> jobject \<times> bool \<times> 'w"
  env_NewGlobalRef :: "jobject \<Rightarrow> 'w \<Rightarrow> nat \<times> 'w"
  env_GetStringUTFChars :: "jstring \<Rightarrow> 'w \<Rightarrow> string option \<times> 'w"
  env_upcall :: "jcall \<Rightarrow> 'w \<Rightarrow> 'w"
  env_mkstemp :: "string \<Rightarrow> 'w \<Rightarrow> int \<times> string \<times> 'w"
  env_open :: "string option \<Rightarrow> bool \<Rightarrow> 'w \<Rightarrow> int \<times> int \<times> 'w"
  env_close :: "int \<Rightarrow> 'w \<Rightarrow> int \<times> int \<times> 'w"
  env_flock :: "int \<Rightarrow> 'w \<Rightarrow> int \<times> 'w"
  env_fstat :: "int \<Rightarrow> 'w \<Rightarrow> int \<times> int \<times> stat \<times> 'w"
  env_stat :: "string option \<Rightarrow> 'w \<Rightarrow> int \<times> int \<times> stat \<times> 'w"
  env_fallocate :: "int \<Rightarrow> int \<Rightarrow> 'w \<Rightarrow> int \<times> int \<times> 'w"
  env_fsync :: "int \<Rightarrow> 'w \<Rightarrow> 'w"
  env_fdatasync :: "int \<Rightarrow> 'w \<Rightarrow> 'w"
  env_lseek :: "int \<Rightarrow> 'w \<Rightarrow> 'w"
  env_write :: "int \<Rightarrow> byte list option \<Rightarrow> nat \<Rightarrow> 'w \<Rightarrow> int \<times> int \<times> 'w"
  env_unlink :: "string \<Rightarrow> 'w \<Rightarrow> 'w"

definition emit :: "effect \<Rightarrow> 'w machine \<Rightarrow> 'w machine" where
  [machine_simps]: "emit e m = m\<lparr>log := log m @ [e]\<rparr>"

text \<open>A sequence of atomic actions on the machine.\<close>

type_synonym 'w action = "'w machine \<Rightarrow> 'w machine option"

fun run_actions :: "'w action list \<Rightarrow> 'w machine \<Rightarrow> 'w machine option" where
  "run_actions [] m = Some m"
| "run_actions (a # as) m = do { m \<leftarrow> a m; run_actions as m }"

subsection \<open>The C heap\<close>

text \<open>
  \<open>malloc\<close> gives a fresh address or null; the caller records the block in the map of its
  kind. \<open>free\<close> of null does nothing, of anything but a live block it is undefined. Memory that
  was allocated and not yet written holds \<open>uninit_ptr\<close> where it holds pointers: an address no
  block ever has, so that reading through it or freeing it is caught.
\<close>

definition uninit_ptr :: addr where "uninit_ptr = 1"

definition malloc :: "'w env \<Rightarrow> u64 \<Rightarrow> 'w machine \<Rightarrow> addr \<times> 'w machine" where
  [machine_simps]: "malloc env n m =
     (let (ok, w) = env_malloc env n (world m)
      in if ok then (next_addr m, m\<lparr>world := w, next_addr := Suc (next_addr m)\<rparr>)
         else (NULL, m\<lparr>world := w\<rparr>))"

definition free_ctl :: "addr \<Rightarrow> 'w machine \<Rightarrow> 'w machine option" where
  [machine_simps]: "free_ctl p m =
     (if p = NULL then Some m else if ctls m p = None then None
      else Some (m\<lparr>ctls := (ctls m)(p := None)\<rparr>))"

definition free_iocb :: "addr \<Rightarrow> 'w machine \<Rightarrow> 'w machine option" where
  [machine_simps]: "free_iocb p m =
     (if p = NULL then Some m else if iocbs m p = None then None
      else Some (m\<lparr>iocbs := (iocbs m)(p := None)\<rparr>))"

definition free_array :: "addr \<Rightarrow> 'w machine \<Rightarrow> 'w machine option" where
  [machine_simps]: "free_array p m =
     (if p = NULL then Some m else if arrays m p = None then None
      else Some (m\<lparr>arrays := (arrays m)(p := None)\<rparr>))"

definition free_block :: "addr \<Rightarrow> 'w machine \<Rightarrow> 'w machine option" where
  [machine_simps]: "free_block p m =
     (if p = NULL then Some m else if blocks m p = None then None
      else Some (m\<lparr>blocks := (blocks m)(p := None)\<rparr>))"

text \<open>\<open>memset(p, 0, n)\<close> on a block of the heap.\<close>

definition memset0 :: "addr \<Rightarrow> nat \<Rightarrow> 'w machine \<Rightarrow> 'w machine option" where
  [machine_simps]: "memset0 p n m =
     (case blocks m p of None \<Rightarrow> None
      | Some bs \<Rightarrow> if n \<le> length bs
          then Some (m\<lparr>blocks := (blocks m)(p \<mapsto> replicate n 0 @ drop n bs)\<rparr>) else None)"

subsection \<open>JNI references and upcalls\<close>

text \<open>A null result of \<open>NewGlobalRef\<close> (out of memory, or a null argument) is handle 0.\<close>

definition NewGlobalRef :: "'w env \<Rightarrow> jobject \<Rightarrow> 'w machine \<Rightarrow> nat \<times> 'w machine" where
  [machine_simps]: "NewGlobalRef env obj m =
     (let (h, w) = env_NewGlobalRef env obj (world m)
      in (h, if h = 0 then m\<lparr>world := w\<rparr> else m\<lparr>world := w, grefs := (grefs m)(h \<mapsto> obj)\<rparr>))"

definition DeleteGlobalRef :: "nat \<Rightarrow> 'w machine \<Rightarrow> 'w machine option" where
  [machine_simps]: "DeleteGlobalRef h m =
     (case grefs m h of None \<Rightarrow> None
      | Some obj \<Rightarrow> Some (emit (EDeleteGlobalRef h) (m\<lparr>grefs := (grefs m)(h := None)\<rparr>)))"

text \<open>A null result of \<open>NewDirectByteBuffer\<close> comes with a pending \<open>OutOfMemoryError\<close>, or without one
  when the JVM does not support direct buffers; the flag of \<open>env_NewDirectByteBuffer\<close> says which.\<close>

definition NewDirectByteBuffer ::
  "'w env \<Rightarrow> addr \<Rightarrow> int \<Rightarrow> 'w machine \<Rightarrow> jobject \<times> 'w machine" where
  "NewDirectByteBuffer env p n m =
     (let (buf, oom, w) = env_NewDirectByteBuffer env p n (world m)
      in (buf, m\<lparr>world := w, exc := (if buf = 0 \<and> oom then Some OutOfMemoryError else exc m)\<rparr>))"

text \<open>A call into Java; the object is reached through a live global reference.\<close>

definition CallVoidMethod ::
  "'w env \<Rightarrow> nat \<Rightarrow> jcall \<Rightarrow> 'w machine \<Rightarrow> 'w machine option" where
  [machine_simps]: "CallVoidMethod env method_id c m =
     (if method_id = 0 then None
      else Some (emit (EUpcall c) (m\<lparr>world := env_upcall env c (world m)\<rparr>)))"

definition deref_cookie :: "cookie \<Rightarrow> 'w machine \<Rightarrow> jobject option" where
  [machine_simps]: "deref_cookie d m = (case d of DRef h \<Rightarrow> grefs m h | _ \<Rightarrow> None)"

subsection \<open>Exceptions: exception\_helper.h and the throw functions\<close>

definition ThrowNew :: "nat \<Rightarrow> jexc \<Rightarrow> 'w machine \<Rightarrow> 'w machine option" where
  [machine_simps]: "ThrowNew cls e m = (if cls = 0 then None else Some (m\<lparr>exc := Some e\<rparr>))"

text \<open>
  \<open>exceptionMessage\<close>: the message with the text of the error number appended, in memory that
  the caller has to release; null when it cannot be allocated.
\<close>

definition exceptionMessage :: "'w env \<Rightarrow> string \<Rightarrow> int \<Rightarrow> 'w machine \<Rightarrow> addr \<times> 'w machine" where
  "exceptionMessage env msg error m =
     (let error = (if error < 0 then to_int32 (error * -1) else error);
          (ok, w) = env_asprintf env (world m);
          m = m\<lparr>world := w\<rparr>
      in if ok
         then (next_addr m, m\<lparr>cstrings := (cstrings m)(next_addr m \<mapsto> msg @ env_strerror env error),
                 next_addr := Suc (next_addr m)\<rparr>)
         else (NULL, emit (EStderr (''Could not allocate enough memory for the error message: ''
                 @ msg @ ''/'' @ env_strerror env error @ [CHR 0x0A])) m))"

definition free_cstring :: "addr \<Rightarrow> 'w machine \<Rightarrow> 'w machine option" where
  [machine_simps]: "free_cstring p m =
     (if p = NULL then Some m
      else if cstrings m p = None then None
      else Some (m\<lparr>cstrings := (cstrings m)(p := None)\<rparr>))"

definition message_at :: "'w machine \<Rightarrow> addr \<Rightarrow> string option" where
  "message_at m p = (if p = NULL then None else cstrings m p)"

definition throwRuntimeException :: "string \<Rightarrow> 'w machine \<Rightarrow> 'w machine option" where
  "throwRuntimeException message m =
     ThrowNew (runtimeExceptionClass m) (RuntimeException (Some message)) m"

definition throwRuntimeExceptionErrorNo ::
  "'w env \<Rightarrow> string \<Rightarrow> int \<Rightarrow> 'w machine \<Rightarrow> 'w machine option" where
  "throwRuntimeExceptionErrorNo env message errorNumber m =
     (let (allocatedMessage, m) = exceptionMessage env message errorNumber m
      in do {
        m \<leftarrow> ThrowNew (runtimeExceptionClass m) (RuntimeException (message_at m allocatedMessage)) m;
        free_cstring allocatedMessage m })"

definition throwIOException :: "string \<Rightarrow> 'w machine \<Rightarrow> 'w machine option" where
  "throwIOException message m = ThrowNew (ioExceptionClass m) (IOException (Some message)) m"

definition throwIOExceptionErrorNo ::
  "'w env \<Rightarrow> string \<Rightarrow> int \<Rightarrow> 'w machine \<Rightarrow> 'w machine option" where
  "throwIOExceptionErrorNo env message errorNumber m =
     (let (allocatedMessage, m) = exceptionMessage env message errorNumber m
      in do {
        m \<leftarrow> ThrowNew (ioExceptionClass m) (IOException (message_at m allocatedMessage)) m;
        free_cstring allocatedMessage m })"

definition throwOutOfMemoryError :: "'w env \<Rightarrow> 'w machine \<Rightarrow> 'w machine option" where
  "throwOutOfMemoryError env m =
     (let (exceptionClass, w) = env_FindClass env ''java/lang/OutOfMemoryError'' (world m)
      in ThrowNew exceptionClass OutOfMemoryError (m\<lparr>world := w\<rparr>))"

subsection \<open>The throw functions leave no memory behind\<close>

text \<open>What the machine is after a throw that builds its message from an error number.\<close>

definition raised :: "'w env \<Rightarrow> (string option \<Rightarrow> jexc) \<Rightarrow> string \<Rightarrow> int \<Rightarrow> 'w machine \<Rightarrow> 'w machine" where
  "raised env mk msg error m =
     (let text = env_strerror env (if error < 0 then to_int32 (error * -1) else error);
          w = snd (env_asprintf env (world m))
      in if fst (env_asprintf env (world m))
         then m\<lparr>world := w, next_addr := Suc (next_addr m), exc := Some (mk (Some (msg @ text)))\<rparr>
         else m\<lparr>world := w, exc := Some (mk None),
                log := log m @ [EStderr (''Could not allocate enough memory for the error message: ''
                 @ msg @ ''/'' @ text @ [CHR 0x0A])]\<rparr>)"

definition classes_loaded :: "'w machine \<Rightarrow> bool" where
  "classes_loaded m \<longleftrightarrow> runtimeExceptionClass m \<noteq> 0 \<and> ioExceptionClass m \<noteq> 0
     \<and> errorMethod m \<noteq> 0 \<and> libaioContextDone m \<noteq> 0"

text \<open>No block lies at null, at \<open>uninit_ptr\<close> or at an address that \<open>malloc\<close> has yet to give.\<close>

definition unallocated :: "'w machine \<Rightarrow> addr \<Rightarrow> bool" where
  "unallocated m a \<longleftrightarrow> ctls m a = None \<and> iocbs m a = None \<and> blocks m a = None
     \<and> arrays m a = None \<and> cstrings m a = None"

definition heap_ok :: "'w machine \<Rightarrow> bool" where
  "heap_ok m \<longleftrightarrow> uninit_ptr < next_addr m
     \<and> (\<forall>a. a \<le> uninit_ptr \<or> next_addr m \<le> a \<longrightarrow> unallocated m a)"

definition ready :: "'w machine \<Rightarrow> bool" where
  "ready m \<longleftrightarrow> classes_loaded m \<and> heap_ok m"

lemma ready_frame [simp]:
  "ready (m\<lparr>exc := e\<rparr>) = ready m" "ready (m\<lparr>world := w\<rparr>) = ready m" "ready (m\<lparr>log := l\<rparr>) = ready m"
  "ready (m\<lparr>grefs := g\<rparr>) = ready m" "ready (m\<lparr>rings := r\<rparr>) = ready m"
  "ready (m\<lparr>forceSysCall := b\<rparr>) = ready m" "ready (m\<lparr>errno := n\<rparr>) = ready m"
  "ready (m\<lparr>utf_pins := k\<rparr>) = ready m" "ready (m\<lparr>oneMegaMutex := l'\<rparr>) = ready m"
  by (simp_all add: ready_def heap_ok_def unallocated_def classes_loaded_def)

lemma ready_ctls [simp]: "ctls m p \<noteq> None \<Longrightarrow> ready (m\<lparr>ctls := (ctls m)(p \<mapsto> c)\<rparr>) = ready m"
  by (auto simp: ready_def heap_ok_def unallocated_def classes_loaded_def)

lemma ready_iocbs [simp]: "iocbs m p \<noteq> None \<Longrightarrow> ready (m\<lparr>iocbs := (iocbs m)(p \<mapsto> cb)\<rparr>) = ready m"
  by (auto simp: ready_def heap_ok_def unallocated_def classes_loaded_def)

lemma heap_ok_next: "heap_ok m \<Longrightarrow> unallocated m (next_addr m) \<and> 1 < next_addr m"
  by (simp add: heap_ok_def uninit_ptr_def)

lemma heap_ok_null: "heap_ok m \<Longrightarrow> unallocated m NULL"
  by (simp add: heap_ok_def)

lemma throwIOExceptionErrorNo_eq:
  assumes "ready m"
  shows "throwIOExceptionErrorNo env msg error m = Some (raised env IOException msg error m)"
  using assms heap_ok_next [of m]
  by (cases m) (auto simp: throwIOExceptionErrorNo_def exceptionMessage_def raised_def message_at_def
    ready_def classes_loaded_def unallocated_def machine_simps Let_def fun_upd_idem split: prod.splits)

lemma throwRuntimeExceptionErrorNo_eq:
  assumes "ready m"
  shows "throwRuntimeExceptionErrorNo env msg error m = Some (raised env RuntimeException msg error m)"
  using assms heap_ok_next [of m]
  by (cases m) (auto simp: throwRuntimeExceptionErrorNo_def exceptionMessage_def raised_def
    message_at_def ready_def classes_loaded_def unallocated_def machine_simps Let_def fun_upd_idem
    split: prod.splits)

lemma raised_frame [simp]:
  "ctls (raised env mk msg e m) = ctls m" "iocbs (raised env mk msg e m) = iocbs m"
  "blocks (raised env mk msg e m) = blocks m" "arrays (raised env mk msg e m) = arrays m"
  "cstrings (raised env mk msg e m) = cstrings m" "rings (raised env mk msg e m) = rings m"
  "grefs (raised env mk msg e m) = grefs m" "forceSysCall (raised env mk msg e m) = forceSysCall m"
  "dumbWriteHandler (raised env mk msg e m) = dumbWriteHandler m"
  "classes_loaded (raised env mk msg e m) = classes_loaded m"
  "utf_pins (raised env mk msg e m) = utf_pins m"
  by (simp_all add: raised_def Let_def classes_loaded_def)

lemma raised_ready: "ready m \<Longrightarrow> ready (raised env mk msg e m)"
  by (auto simp: ready_def heap_ok_def unallocated_def raised_def Let_def classes_loaded_def)

lemma raised_text:
  "exc (raised env mk msg e m) = Some (mk None) \<or> (\<exists>s. exc (raised env mk msg e m) = Some (mk (Some (msg @ s))))"
  by (auto simp: raised_def Let_def)

lemma raised_exc: "\<exists>text. exc (raised env mk msg e m) = Some (mk text)"
  by (auto simp: raised_def Let_def)

end
