(* ===== verification/Sample.thy ===== *)
theory Sample
  imports Machine
begin

section \<open>A concrete world\<close>

text \<open>
  The parameters of the model instantiated once: a world with one number as its state, whose
  kernel accepts requests unless that number is 0 and whose \<open>io_getevents\<close> takes events from
  the head of the ring, and a machine with one context of three control blocks. The theorems
  of the other theories are applied to it, which shows that their hypotheses can hold.
\<close>

definition sample_getevents :: "nat getevents" where
  "sample_getevents aio_ctx min_nr max_nr timeout ring w =
     (let k = min (nat max_nr) (ring_count ring)
      in (int k, take k (ring_pending ring),
          ring\<lparr>head := word_of_nat ((unat (head ring) + k) mod unat (nr ring))\<rparr>, w))"

definition sample_event :: "addr \<Rightarrow> u64 \<Rightarrow> io_event" where
  "sample_event obj res = \<lparr>ev_obj = obj, ev_res = res\<rparr>"

definition sample_ring :: aio_ring where
  "sample_ring = \<lparr>ring_id = 1, nr = 4, head = 3, tail = 3, magic = AIO_RING_MAGIC,
     compat_features = 1, incompat_features = AIO_RING_INCOMPAT_FEATURES, header_length = 32,
     io_events = replicate 4 (sample_event NULL 0)\<rparr>"

definition sample_prep :: "iocb \<Rightarrow> int \<Rightarrow> addr \<Rightarrow> u64 \<Rightarrow> int \<Rightarrow> iocb" where
  "sample_prep cb fd buf n off = \<lparr>aio_fildes = fd, aio_lio_opcode = 1, aio_buf = buf,
     aio_nbytes = n, aio_offset = off, iocb_data = DNull\<rparr>"

definition sample_env :: "nat env" where
  "sample_env = \<lparr>
     env_malloc = (\<lambda>n w. (True, w)),
     env_posix_memalign = (\<lambda>a n w. (if a = 0 then 22 else 0, w)),
     env_asprintf = (\<lambda>w. (True, w)),
     env_mutex_init = (\<lambda>w. (0, w)),
     env_strerror = (\<lambda>e. ''error''),
     env_io_queue_init = (\<lambda>n w. (if n \<le> 0 then -22 else 0, 9000, sample_ring, w)),
     env_io_submit = (\<lambda>ctx p cb w. (if w = 0 then -11 else 1, w)),
     env_getevents = sample_getevents,
     env_prep_pwrite = sample_prep,
     env_prep_pread = sample_prep,
     env_GetEnv = (\<lambda>w. True),
     env_FindClass = (\<lambda>name w. (length name, w)),
     env_GetMethodID = (\<lambda>c name sig w. (8, w)),
     env_GetDirectBufferAddress = (\<lambda>obj w. obj),
     env_NewDirectByteBuffer = (\<lambda>p n w. (p, False, w)),
     env_NewGlobalRef = (\<lambda>obj w. (if obj = 0 then 0 else 100 + obj, w)),
     env_GetStringUTFChars = (\<lambda>s w. (Some s, w)),
     env_upcall = (\<lambda>c w. w),
     env_mkstemp = (\<lambda>s w. (5, s, w)),
     env_open = (\<lambda>s d w. (if s = Some ''missing'' then -1 else 6, 2, w)),
     env_close = (\<lambda>fd w. (0, 0, w)),
     env_flock = (\<lambda>fd w. (0, w)),
     env_fstat = (\<lambda>fd w. (0, 0, \<lparr>st_size = 4096, st_blksize = 512\<rparr>, w)),
     env_stat = (\<lambda>s w. (if s = Some ''missing'' then -1 else 0, 2, \<lparr>st_size = 4096, st_blksize = 512\<rparr>, w)),
     env_fallocate = (\<lambda>fd n w. (0, 0, w)),
     env_fsync = (\<lambda>fd w. w),
     env_fdatasync = (\<lambda>fd w. w),
     env_lseek = (\<lambda>fd w. w),
     env_write = (\<lambda>fd buf n w. (if buf = None \<and> 0 < n then -1 else int n, 14, w)),
     env_unlink = (\<lambda>s w. w)\<rparr>"

definition sample_iocb :: "int \<Rightarrow> cookie \<Rightarrow> iocb" where
  "sample_iocb fd d = \<lparr>aio_fildes = fd, aio_lio_opcode = 1, aio_buf = NULL, aio_nbytes = 0,
     aio_offset = 0, iocb_data = d\<rparr>"

text \<open>A context at address 10 whose pool holds the control blocks 20, 21 and 22, \<open>k\<close> of them in use.\<close>

definition sample_control :: "int \<Rightarrow> io_control" where
  "sample_control k = \<lparr>ioContext = 9000, events_ptr = 31,
     events_arr = replicate 3 (sample_event NULL 0), thisObject = 90, iocbLock = MUnlocked,
     pollLock = MUnlocked, iocb_ptr = 30, iocb_arr = [20, 21, 22], queueSize = 3, iocbPut = 0,
     iocbGet = k mod 3, used = k\<rparr>"

definition sample_machine :: "int \<Rightarrow> nat \<Rightarrow> nat machine" where
  "sample_machine k w = \<lparr>forceSysCall = False, dumbWriteHandler = 5, dumbPath = ''/tmp/dumb'',
     oneMegaBuffer = NULL, oneMegaMutex = MUnlocked, submitClass = 1, errorMethod = 2,
     doneMethod = 3, libaioContextDone = 4, libaioContextClass = 5, runtimeExceptionClass = 6,
     ioExceptionClass = 7, errno = 0, ctls = [10 \<mapsto> sample_control k],
     iocbs = [20 \<mapsto> sample_iocb 6 DNull, 21 \<mapsto> sample_iocb 6 DNull, 22 \<mapsto> sample_iocb 6 DNull], blocks = Map.empty,
     arrays = [30 \<mapsto> 24, 31 \<mapsto> 96], cstrings = Map.empty, next_addr = 40,
     rings = [9000 \<mapsto> sample_ring], exc = None, grefs = [90 \<mapsto> 1], utf_pins = 0, log = [],
     world = w\<rparr>"

lemmas sample_defs = sample_env_def sample_machine_def sample_control_def sample_iocb_def
  sample_ring_def sample_event_def sample_prep_def

lemma sample_env_simps [simp]:
  "env_malloc sample_env = (\<lambda>n w. (True, w))"
  "env_posix_memalign sample_env = (\<lambda>a n w. (if a = 0 then 22 else 0, w))"
  "env_asprintf sample_env = (\<lambda>w. (True, w))"
  "env_mutex_init sample_env = (\<lambda>w. (0, w))"
  "env_strerror sample_env = (\<lambda>e. ''error'')"
  "env_io_queue_init sample_env = (\<lambda>n w. (if n \<le> 0 then -22 else 0, 9000, sample_ring, w))"
  "env_io_submit sample_env = (\<lambda>ctx p cb w. (if w = 0 then -11 else 1, w))"
  "env_getevents sample_env = sample_getevents"
  "env_prep_pwrite sample_env = sample_prep"
  "env_prep_pread sample_env = sample_prep"
  "env_GetEnv sample_env = (\<lambda>w. True)"
  "env_FindClass sample_env = (\<lambda>name w. (length name, w))"
  "env_GetMethodID sample_env = (\<lambda>c name sig w. (8, w))"
  "env_GetDirectBufferAddress sample_env = (\<lambda>obj w. obj)"
  "env_NewDirectByteBuffer sample_env = (\<lambda>p n w. (p, False, w))"
  "env_NewGlobalRef sample_env = (\<lambda>obj w. (if obj = 0 then 0 else 100 + obj, w))"
  "env_GetStringUTFChars sample_env = (\<lambda>s w. (Some s, w))"
  "env_upcall sample_env = (\<lambda>c w. w)"
  "env_mkstemp sample_env = (\<lambda>s w. (5, s, w))"
  "env_open sample_env = (\<lambda>s d w. (if s = Some ''missing'' then -1 else 6, 2, w))"
  "env_close sample_env = (\<lambda>fd w. (0, 0, w))"
  "env_flock sample_env = (\<lambda>fd w. (0, w))"
  "env_fstat sample_env = (\<lambda>fd w. (0, 0, \<lparr>st_size = 4096, st_blksize = 512\<rparr>, w))"
  "env_stat sample_env = (\<lambda>s w. (if s = Some ''missing'' then -1 else 0, 2, \<lparr>st_size = 4096, st_blksize = 512\<rparr>, w))"
  "env_fallocate sample_env = (\<lambda>fd n w. (0, 0, w))"
  "env_fsync sample_env = (\<lambda>fd w. w)"
  "env_fdatasync sample_env = (\<lambda>fd w. w)"
  "env_lseek sample_env = (\<lambda>fd w. w)"
  "env_write sample_env = (\<lambda>fd buf n w. (if buf = None \<and> 0 < n then -1 else int n, 14, w))"
  "env_unlink sample_env = (\<lambda>s w. w)"
  by (simp_all add: sample_env_def)

lemma sample_machine_simps [simp]:
  "forceSysCall (sample_machine k w) = False"
  "dumbWriteHandler (sample_machine k w) = 5"
  "dumbPath (sample_machine k w) = ''/tmp/dumb''"
  "oneMegaBuffer (sample_machine k w) = NULL"
  "oneMegaMutex (sample_machine k w) = MUnlocked"
  "submitClass (sample_machine k w) = 1"
  "errorMethod (sample_machine k w) = 2"
  "doneMethod (sample_machine k w) = 3"
  "libaioContextDone (sample_machine k w) = 4"
  "libaioContextClass (sample_machine k w) = 5"
  "runtimeExceptionClass (sample_machine k w) = 6"
  "ioExceptionClass (sample_machine k w) = 7"
  "errno (sample_machine k w) = 0"
  "ctls (sample_machine k w) = [10 \<mapsto> sample_control k]"
  "iocbs (sample_machine k w) = [20 \<mapsto> sample_iocb 6 DNull, 21 \<mapsto> sample_iocb 6 DNull, 22 \<mapsto> sample_iocb 6 DNull]"
  "blocks (sample_machine k w) = Map.empty"
  "arrays (sample_machine k w) = [30 \<mapsto> 24, 31 \<mapsto> 96]"
  "cstrings (sample_machine k w) = Map.empty"
  "next_addr (sample_machine k w) = 40"
  "rings (sample_machine k w) = [9000 \<mapsto> sample_ring]"
  "exc (sample_machine k w) = None"
  "grefs (sample_machine k w) = [90 \<mapsto> 1]"
  "utf_pins (sample_machine k w) = 0"
  "log (sample_machine k w) = []"
  "world (sample_machine k w) = w"
  by (simp_all add: sample_machine_def)

lemma sample_control_simps [simp]:
  "ioContext (sample_control k) = 9000" "events_ptr (sample_control k) = 31"
  "events_arr (sample_control k) = replicate 3 (sample_event NULL 0)"
  "thisObject (sample_control k) = 90" "pollLock (sample_control k) = MUnlocked"
  "iocbLock (sample_control k) = MUnlocked"
  "queueSize (sample_control k) = 3" "used (sample_control k) = k"
  "iocb_arr (sample_control k) = [20, 21, 22]" "iocb_ptr (sample_control k) = 30"
  by (simp_all add: sample_control_def)

lemma sample_ready: "ready (sample_machine k w)"
  by (auto simp: ready_def classes_loaded_def heap_ok_def unallocated_def uninit_ptr_def
    sample_machine_def)

lemma sample_pool_inv [simp]:
  "pool_inv (sample_control 0)" "pool_inv (sample_control 1)" "pool_inv (sample_control 2)"
  "pool_inv (sample_control 3)"
  by (simp_all add: pool_inv_def pool_free_def sample_control_def ring_slice_def upt_rec)

lemma sample_pool_free [simp]:
  "pool_free (sample_control 0) = [20, 21, 22]" "pool_free (sample_control 1) = [21, 22]"
  "pool_free (sample_control 2) = [22]" "pool_free (sample_control 3) = []"
  by (simp_all add: pool_free_def sample_control_def ring_slice_def upt_rec)

lemma sample_ring_inv: "ring_inv sample_ring"
  by (simp add: ring_inv_def sample_ring_def)

text \<open>The same context with all blocks in use and two completions in its ring, the second one a
  failure; and with a dumb write behind the first.\<close>

definition sample_done_ring :: aio_ring where
  "sample_done_ring = sample_ring\<lparr>tail := 1,
     io_events := [sample_event 21 (-5), sample_event NULL 0, sample_event NULL 0, sample_event 20 512]\<rparr>"

definition sample_poll_machine :: "nat machine" where
  "sample_poll_machine = (sample_machine 3 1)\<lparr>
     iocbs := [20 \<mapsto> sample_iocb 6 (DRef 177), 21 \<mapsto> sample_iocb 6 (DRef 178), 22 \<mapsto> sample_iocb 6 (DRef 179)],
     grefs := [90 \<mapsto> 1, 177 \<mapsto> 77, 178 \<mapsto> 78, 179 \<mapsto> 79], rings := [9000 \<mapsto> sample_done_ring]\<rparr>"

definition sample_stop_machine :: "nat machine" where
  "sample_stop_machine = sample_poll_machine\<lparr>
     iocbs := [20 \<mapsto> sample_iocb 6 (DRef 177), 21 \<mapsto> sample_iocb 5 DMinusOne, 22 \<mapsto> sample_iocb 6 (DRef 179)]\<rparr>"

lemma sample_done_ring_simps [simp]:
  "ring_inv sample_done_ring" "has_usable_ring sample_done_ring"
  "ring_count sample_done_ring = 2"
  "ring_pending sample_done_ring = [sample_event 20 512, sample_event 21 (-5)]"
  by (simp_all add: ring_inv_def sample_done_ring_def sample_ring_def has_usable_ring_def
    ring_count_def ring_pending_def ring_slice_def upt_rec)

lemma sample_event_simps [simp]: "ev_obj (sample_event q r) = q" "ev_res (sample_event q r) = r"
  by (simp_all add: sample_event_def)

lemma sample_iocb_simps [simp]:
  "aio_fildes (sample_iocb fd d) = fd" "iocb_data (sample_iocb fd d) = d"
  by (simp_all add: sample_iocb_def)

end
