(* ===== verification/Submit.thy ===== *)
theory Submit
  imports Sample
begin

section \<open>Submitting reads and writes\<close>

text \<open>
  \<open>getIOControl\<close>, \<open>submit\<close> and the JNI entry points \<open>submitWrite\<close> and \<open>submitRead\<close>. A control
  block is taken from the pool of the context, prepared, tied to a global reference to the
  callback and handed to the kernel; when the kernel refuses it, reference and control block
  go back and an \<open>IOException\<close> is pending.
\<close>

definition getIOCB_at :: "addr \<Rightarrow> 'w machine \<Rightarrow> (addr \<times> 'w machine) option" where
  [machine_simps]: "getIOCB_at p m = do {
     c \<leftarrow> ctls m p;
     (iocb, c) \<leftarrow> getIOCB c;
     Some (iocb, m\<lparr>ctls := (ctls m)(p \<mapsto> c)\<rparr>) }"

definition putIOCB_at :: "addr \<Rightarrow> addr \<Rightarrow> 'w machine \<Rightarrow> 'w machine option" where
  [machine_simps]: "putIOCB_at p iocb m = do {
     c \<leftarrow> ctls m p;
     c \<leftarrow> putIOCB c iocb;
     Some (m\<lparr>ctls := (ctls m)(p \<mapsto> c)\<rparr>) }"

text \<open>\<open>setForceSyscall\<close> and \<open>isForceSyscall\<close>.\<close>

definition setForceSyscall :: "bool \<Rightarrow> 'w machine \<Rightarrow> 'w machine" where
  "setForceSyscall value m = m\<lparr>forceSysCall := value\<rparr>"

definition isForceSyscall :: "'w machine \<Rightarrow> bool" where
  "isForceSyscall m = (forceSysCall m \<or> \<not> RING_REAPER)"

definition getIOControl :: "'w env \<Rightarrow> jobject \<Rightarrow> 'w machine \<Rightarrow> (addr \<times> 'w machine) option" where
  "getIOControl env pointer m =
     (let ioControl = env_GetDirectBufferAddress env pointer (world m)
      in if ioControl = NULL then do {
           m \<leftarrow> throwRuntimeException ''Controller not initialized'' m;
           Some (NULL, m) }
         else Some (ioControl, m))"

definition getBuffer :: "'w env \<Rightarrow> jobject \<Rightarrow> 'w machine \<Rightarrow> addr" where
  "getBuffer env pointer m = env_GetDirectBufferAddress env pointer (world m)"

text \<open>\<open>submit\<close>, as its steps: the system call; after a refusal the reference to the callback, if there
  is one, is deleted and the control block returned. The result tells whether the request is with
  the kernel.\<close>

definition io_submit_at :: "'w env \<Rightarrow> addr \<Rightarrow> addr \<Rightarrow> 'w machine \<Rightarrow> (int \<times> 'w machine) option" where
  "io_submit_at env theControl iocb m = do {
     c \<leftarrow> ctls m theControl;
     cb \<leftarrow> iocbs m iocb;
     let (result, w) = env_io_submit env (ioContext c) iocb cb (world m);
     Some (result, emit (ESubmit (ioContext c) iocb result) (m\<lparr>world := w\<rparr>)) }"

definition release_callback :: "addr \<Rightarrow> 'w action" where
  "release_callback iocb m = do {
     cb \<leftarrow> iocbs m iocb;
     case iocb_data cb of DRef h \<Rightarrow> DeleteGlobalRef h m | _ \<Rightarrow> Some m }"

definition submit :: "'w env \<Rightarrow> addr \<Rightarrow> addr \<Rightarrow> 'w machine \<Rightarrow> (bool \<times> 'w machine) option" where
  "submit env theControl iocb m = do {
     (result, m) \<leftarrow> io_submit_at env theControl iocb m;
     if result < 0 then do {
       m \<leftarrow> run_actions [release_callback iocb, putIOCB_at theControl iocb] m;
       m \<leftarrow> throwIOExceptionErrorNo env ''Error while submitting IO: '' (- result) m;
       Some (False, m) }
     else Some (True, m) }"

definition cookie_of :: "nat \<Rightarrow> cookie" where
  "cookie_of h = (if h = 0 then DNull else DRef h)"

text \<open>A control block is prepared and tied to a new global reference to the callback.\<close>

definition arm_iocb ::
  "'w env \<Rightarrow> (iocb \<Rightarrow> int \<Rightarrow> addr \<Rightarrow> u64 \<Rightarrow> int \<Rightarrow> iocb) \<Rightarrow> int \<Rightarrow> int \<Rightarrow> int \<Rightarrow> jobject \<Rightarrow> jobject \<Rightarrow> addr
    \<Rightarrow> 'w action" where
  "arm_iocb env prep fileHandle position nbytes buffer callback iocb m = do {
     cb \<leftarrow> iocbs m iocb;
     let cb = prep cb fileHandle (getBuffer env buffer m) (size_t nbytes) position;
     let (h, m) = NewGlobalRef env callback m;
     Some (m\<lparr>iocbs := (iocbs m)(iocb \<mapsto> cb\<lparr>iocb_data := cookie_of h\<rparr>)\<rparr>) }"

text \<open>The two entry points differ in the \<open>libaio\<close> function that prepares the control block.\<close>

definition submitWrite ::
  "'w env \<Rightarrow> int \<Rightarrow> jobject \<Rightarrow> int \<Rightarrow> int \<Rightarrow> jobject \<Rightarrow> jobject \<Rightarrow> 'w machine \<Rightarrow> 'w machine option" where
  "submitWrite env fileHandle contextPointer position nbytes bufferWrite callback m = do {
     (theControl, m) \<leftarrow> getIOControl env contextPointer m;
     if theControl = NULL then Some m else do {
       (iocb, m) \<leftarrow> getIOCB_at theControl m;
       if iocb = NULL then throwIOException ''Not enough space in libaio queue'' m
       else do {
         m \<leftarrow> arm_iocb env (env_prep_pwrite env) fileHandle position nbytes bufferWrite callback iocb m;
         (_, m) \<leftarrow> submit env theControl iocb m;
         Some m } } }"

definition submitRead ::
  "'w env \<Rightarrow> int \<Rightarrow> jobject \<Rightarrow> int \<Rightarrow> int \<Rightarrow> jobject \<Rightarrow> jobject \<Rightarrow> 'w machine \<Rightarrow> 'w machine option" where
  "submitRead env fileHandle contextPointer position nbytes bufferRead callback m = do {
     (theControl, m) \<leftarrow> getIOControl env contextPointer m;
     if theControl = NULL then Some m else do {
       (iocb, m) \<leftarrow> getIOCB_at theControl m;
       if iocb = NULL then throwIOException ''Not enough space in libaio queue'' m
       else do {
         m \<leftarrow> arm_iocb env (env_prep_pread env) fileHandle position nbytes bufferRead callback iocb m;
         (_, m) \<leftarrow> submit env theControl iocb m;
         Some m } } }"

subsection \<open>Well-formed contexts\<close>

text \<open>The context at \<open>p\<close>: its pool is sound and every free cell is a live control block.\<close>

definition ctx_ok :: "addr \<Rightarrow> 'w machine \<Rightarrow> bool" where
  "ctx_ok p m \<longleftrightarrow> p \<noteq> NULL \<and>
     (\<exists>c. ctls m p = Some c \<and> pool_inv c \<and> set (pool_free c) \<subseteq> dom (iocbs m))"

lemma ctx_ok_frame [simp]:
  "ctx_ok p (m\<lparr>exc := e\<rparr>) = ctx_ok p m" "ctx_ok p (m\<lparr>world := w\<rparr>) = ctx_ok p m"
  "ctx_ok p (m\<lparr>log := l\<rparr>) = ctx_ok p m" "ctx_ok p (m\<lparr>grefs := g\<rparr>) = ctx_ok p m"
  "ctx_ok p (m\<lparr>rings := r\<rparr>) = ctx_ok p m" "ctx_ok p (m\<lparr>forceSysCall := b\<rparr>) = ctx_ok p m"
  by (simp_all add: ctx_ok_def)

lemma ctx_okE:
  assumes "ctx_ok p m"
  obtains c where "ctls m p = Some c" "pool_inv c" "set (pool_free c) \<subseteq> dom (iocbs m)" "p \<noteq> NULL"
  using assms by (auto simp: ctx_ok_def split: option.splits)

subsection \<open>One request\<close>

text \<open>What the two entry points share, with the preparation as an argument.\<close>

definition submit_request ::
  "'w env \<Rightarrow> (iocb \<Rightarrow> int \<Rightarrow> addr \<Rightarrow> u64 \<Rightarrow> int \<Rightarrow> iocb) \<Rightarrow> int \<Rightarrow> jobject \<Rightarrow> int \<Rightarrow> int \<Rightarrow> jobject
    \<Rightarrow> jobject \<Rightarrow> 'w machine \<Rightarrow> 'w machine option" where
  "submit_request env prep fileHandle contextPointer position nbytes buffer callback m = do {
     (theControl, m) \<leftarrow> getIOControl env contextPointer m;
     if theControl = NULL then Some m else do {
       (iocb, m) \<leftarrow> getIOCB_at theControl m;
       if iocb = NULL then throwIOException ''Not enough space in libaio queue'' m
       else do {
         m \<leftarrow> arm_iocb env prep fileHandle position nbytes buffer callback iocb m;
         (_, m) \<leftarrow> submit env theControl iocb m;
         Some m } } }"

lemma submitWrite_request: "submitWrite env = submit_request env (env_prep_pwrite env)"
  by (simp add: fun_eq_iff submitWrite_def submit_request_def)

lemma submitRead_request: "submitRead env = submit_request env (env_prep_pread env)"
  by (simp add: fun_eq_iff submitRead_def submit_request_def)

lemma getIOControl_null:
  "env_GetDirectBufferAddress env cp (world m) = NULL \<Longrightarrow> classes_loaded m \<Longrightarrow>
    getIOControl env cp m =
      Some (NULL, m\<lparr>exc := Some (RuntimeException (Some ''Controller not initialized''))\<rparr>)"
  by (simp add: getIOControl_def throwRuntimeException_def ThrowNew_def classes_loaded_def)

lemma getIOControl_ptr:
  "env_GetDirectBufferAddress env cp (world m) = p \<Longrightarrow> p \<noteq> NULL \<Longrightarrow> getIOControl env cp m = Some (p, m)"
  by (simp add: getIOControl_def)

lemma getIOCB_at_full:
  "ctls m p = Some c \<Longrightarrow> pool_inv c \<Longrightarrow> used c = queueSize c \<Longrightarrow> getIOCB_at p m = Some (NULL, m)"
  by (cases m) (simp add: getIOCB_at_def getIOCB_full fun_upd_idem)

text \<open>The machine once the kernel was asked: the control block is taken, prepared, and tied to
  the reference \<open>h\<close>.\<close>

definition requested ::
  "addr \<Rightarrow> io_control \<Rightarrow> iocb \<Rightarrow> nat \<Rightarrow> jobject \<Rightarrow> 'w \<Rightarrow> 'w machine \<Rightarrow> 'w machine" where
  "requested p c cb h callback w m =
     m\<lparr>ctls := (ctls m)(p \<mapsto> c\<lparr>used := used c + 1, iocbGet := (iocbGet c + 1) mod queueSize c\<rparr>),
       iocbs := (iocbs m)(hd (pool_free c) \<mapsto> cb\<lparr>iocb_data := cookie_of h\<rparr>),
       grefs := (if h = 0 then grefs m else (grefs m)(h \<mapsto> callback)), world := w\<rparr>"

lemma submit_request_step:
  assumes "env_GetDirectBufferAddress env cp (world m) = p" and "p \<noteq> NULL"
    and "ctls m p = Some c" and inv: "pool_inv c" and room: "used c < queueSize c"
    and cb: "iocbs m (hd (pool_free c)) = Some blk"
    and ref: "env_NewGlobalRef env callback (world m) = (h, w)"
  shows "submit_request env prep fd cp position nbytes buffer callback m = do {
    (_, m') \<leftarrow> submit env p (hd (pool_free c)) (requested p c
      (prep blk fd (env_GetDirectBufferAddress env buffer (world m)) (size_t nbytes) position)
      h callback w m);
    Some m' }"
proof -
  have q: "hd (pool_free c) \<noteq> NULL"
    using getIOCB_inv [OF inv room] getIOCB_avail [OF inv room] by blast
  with assms show ?thesis
    by (cases m) (simp add: submit_request_def getIOControl_ptr getIOCB_at_def getIOCB_avail [OF inv room]
      getBuffer_def arm_iocb_def NewGlobalRef_def requested_def Let_def)
qed

lemma submit_accepted:
  assumes "ctls m p = Some c" and "iocbs m q = Some cb"
    and "env_io_submit env (ioContext c) q cb (world m) = (r, w)" and "0 \<le> r"
  shows "submit env p q m = Some (True, m\<lparr>world := w, log := log m @ [ESubmit (ioContext c) q r]\<rparr>)"
  using assms by (simp add: submit_def io_submit_at_def emit_def)

text \<open>The log line of a reference that is given up, if there is one.\<close>

definition delete_log :: "cookie \<Rightarrow> effect list" where
  "delete_log d = (case d of DRef h \<Rightarrow> [EDeleteGlobalRef h] | _ \<Rightarrow> [])"

definition drop_ref :: "cookie \<Rightarrow> (nat \<rightharpoonup> jobject) \<Rightarrow> (nat \<rightharpoonup> jobject)" where
  "drop_ref d g = (case d of DRef h \<Rightarrow> g(h := None) | _ \<Rightarrow> g)"

lemma submit_rejected:
  assumes c: "ctls m p = Some c" and inv: "pool_inv c" and cb: "iocbs m q = Some cb"
    and sub: "env_io_submit env (ioContext c) q cb (world m) = (r, w)" and r: "r < 0"
    and live: "\<And>h. iocb_data cb = DRef h \<Longrightarrow> grefs m h \<noteq> None" and ready: "ready m"
  shows "submit env p q m = Some (False, raised env IOException ''Error while submitting IO: '' (- r)
    (m\<lparr>world := w, grefs := drop_ref (iocb_data cb) (grefs m),
      log := log m @ ESubmit (ioContext c) q r # delete_log (iocb_data cb),
      ctls := (ctls m)(p \<mapsto> the (putIOCB c q))\<rparr>))"
proof -
  obtain c' where put: "putIOCB c q = Some c'" using putIOCB_used [OF inv] by blast
  let ?m = "m\<lparr>world := w, grefs := drop_ref (iocb_data cb) (grefs m),
      log := log m @ ESubmit (ioContext c) q r # delete_log (iocb_data cb), ctls := (ctls m)(p \<mapsto> c')\<rparr>"
  have "ready ?m"
    using ready c by (auto simp: ready_def heap_ok_def unallocated_def classes_loaded_def)
  from throwIOExceptionErrorNo_eq [OF this] show ?thesis
    using c cb sub r put live
    by (cases "iocb_data cb") (auto simp: submit_def io_submit_at_def release_callback_def putIOCB_at_def DeleteGlobalRef_def emit_def
      delete_log_def drop_ref_def)
qed

subsection \<open>The three outcomes of a request\<close>

text \<open>A fresh handle: \<open>NewGlobalRef\<close> never gives a reference that is still in use.\<close>

definition fresh_ref :: "'w env \<Rightarrow> 'w machine \<Rightarrow> jobject \<Rightarrow> bool" where
  "fresh_ref env m obj \<longleftrightarrow>
     (let h = fst (env_NewGlobalRef env obj (world m)) in h = 0 \<or> grefs m h = None)"

lemma requested_simps [simp]:
  "ctls (requested p c cb h callback w m) = (ctls m)(p \<mapsto>
     c\<lparr>used := used c + 1, iocbGet := (iocbGet c + 1) mod queueSize c\<rparr>)"
  "iocbs (requested p c cb h callback w m) =
     (iocbs m)(hd (pool_free c) \<mapsto> cb\<lparr>iocb_data := cookie_of h\<rparr>)"
  "grefs (requested p c cb h callback w m) = (if h = 0 then grefs m else (grefs m)(h \<mapsto> callback))"
  "world (requested p c cb h callback w m) = w" "log (requested p c cb h callback w m) = log m"
  "classes_loaded (requested p c cb h callback w m) = classes_loaded m"
  by (simp_all add: requested_def classes_loaded_def)

lemma ready_requested:
  assumes "ready m" and "ctls m p = Some c" and "iocbs m (hd (pool_free c)) \<noteq> None"
  shows "ready (requested p c cb h callback w m)"
  using assms by (auto simp: ready_def heap_ok_def unallocated_def requested_def classes_loaded_def)

lemma taken_inv:
  assumes inv: "pool_inv c" and room: "used c < queueSize c"
  shows "pool_inv (c\<lparr>used := used c + 1, iocbGet := (iocbGet c + 1) mod queueSize c\<rparr>)"
    and "pool_free (c\<lparr>used := used c + 1, iocbGet := (iocbGet c + 1) mod queueSize c\<rparr>) = tl (pool_free c)"
    and "hd (pool_free c) \<noteq> NULL" and "pool_free c \<noteq> []"
  using getIOCB_inv [OF inv room getIOCB_avail [OF inv room]]
  by (simp, metis list.sel(3), simp, metis list.distinct(1))

text \<open>The pool after the request was refused: the control block is at the end of the line.\<close>

lemma put_back:
  assumes inv: "pool_inv c" and room: "used c < queueSize c"
  obtains c' where
    "putIOCB (c\<lparr>used := used c + 1, iocbGet := (iocbGet c + 1) mod queueSize c\<rparr>) (hd (pool_free c)) = Some c'"
    "pool_inv c'" "pool_free c' = tl (pool_free c) @ [hd (pool_free c)]" "used c' = used c"
    "queueSize c' = queueSize c" "ioContext c' = ioContext c"
proof -
  let ?c = "c\<lparr>used := used c + 1, iocbGet := (iocbGet c + 1) mod queueSize c\<rparr>"
  note t = taken_inv [OF inv room]
  have busy: "0 < used ?c" using inv by (simp add: pool_inv_def)
  obtain c' where put: "putIOCB ?c (hd (pool_free c)) = Some c'"
    and same: "queueSize c' = queueSize c" "ioContext c' = ioContext c"
    using putIOCB_used [OF t(1), of "hd (pool_free c)"] by simp
  with putIOCB_inv [OF t(1) busy t(3) put] t(2) that show ?thesis by simp
qed

lemma free_iocb_live:
  assumes "ctx_ok p m" and "ctls m p = Some c" and "used c < queueSize c"
  obtains cb where "iocbs m (hd (pool_free c)) = Some cb"
proof -
  from assms have inv: "pool_inv c" and sub: "set (pool_free c) \<subseteq> dom (iocbs m)"
    by (simp_all add: ctx_ok_def)
  from taken_inv(4) [OF inv assms(3)] have "hd (pool_free c) \<in> set (pool_free c)" by simp
  with sub that show ?thesis by blast
qed

lemma request_accepted:
  assumes "env_GetDirectBufferAddress env cp (world m) = p" and ok: "ctx_ok p m"
    and c: "ctls m p = Some c" and room: "used c < queueSize c"
    and cb: "iocbs m (hd (pool_free c)) = Some blk"
    and ref: "env_NewGlobalRef env callback (world m) = (h, w)"
    and prep: "cb = prep blk fd (env_GetDirectBufferAddress env buffer (world m)) (size_t nbytes) position"
    and sub: "env_io_submit env (ioContext c) (hd (pool_free c)) (cb\<lparr>iocb_data := cookie_of h\<rparr>) w = (r, w')"
    and r: "0 \<le> r"
  shows "submit_request env prep fd cp position nbytes buffer callback m =
    Some ((requested p c cb h callback w m)\<lparr>world := w',
      log := log m @ [ESubmit (ioContext c) (hd (pool_free c)) r]\<rparr>)"
proof -
  from ok c have inv: "pool_inv c" and p: "p \<noteq> NULL" by (simp_all add: ctx_ok_def)
  have "submit env p (hd (pool_free c)) (requested p c cb h callback w m) =
    Some (True, (requested p c cb h callback w m)\<lparr>world := w',
      log := log m @ [ESubmit (ioContext c) (hd (pool_free c)) r]\<rparr>)"
    using submit_accepted [where m = "requested p c cb h callback w m" and p = p
      and q = "hd (pool_free c)" and env = env] sub r by simp
  with submit_request_step [OF assms(1) p c inv room cb ref] show ?thesis
    by (simp add: prep)
qed

lemma request_rejected_put:
  assumes "env_GetDirectBufferAddress env cp (world m) = p" and ok: "ctx_ok p m"
    and c: "ctls m p = Some c" and room: "used c < queueSize c"
    and cb: "iocbs m (hd (pool_free c)) = Some blk"
    and ref: "env_NewGlobalRef env callback (world m) = (h, w)"
    and fresh: "fresh_ref env m callback" and ready: "ready m"
    and prep: "cb = prep blk fd (env_GetDirectBufferAddress env buffer (world m)) (size_t nbytes) position"
    and sub: "env_io_submit env (ioContext c) (hd (pool_free c)) (cb\<lparr>iocb_data := cookie_of h\<rparr>) w = (r, w')"
    and r: "r < 0"
  shows "\<exists>m' c'. submit_request env prep fd cp position nbytes buffer callback m = Some m'
    \<and> (\<exists>text. exc m' = Some (IOException text)
        \<and> (text = None \<or> (\<exists>s. text = Some (''Error while submitting IO: '' @ s)))) \<and> ready m'
    \<and> grefs m' = grefs m \<and> ctls m' = (ctls m)(p \<mapsto> c') \<and> pool_inv c'
    \<and> pool_free c' = tl (pool_free c) @ [hd (pool_free c)] \<and> used c' = used c
    \<and> queueSize c' = queueSize c
    \<and> iocbs m' = (iocbs m)(hd (pool_free c) \<mapsto> cb\<lparr>iocb_data := cookie_of h\<rparr>)
    \<and> blocks m' = blocks m \<and> arrays m' = arrays m \<and> cstrings m' = cstrings m
    \<and> putIOCB (c\<lparr>used := used c + 1, iocbGet := (iocbGet c + 1) mod queueSize c\<rparr>) (hd (pool_free c)) = Some c'"
proof -
  let ?m = "requested p c cb h callback w m"
  from ok c have inv: "pool_inv c" and p: "p \<noteq> NULL" by (simp_all add: ctx_ok_def)
  let ?c = "c\<lparr>used := used c + 1, iocbGet := (iocbGet c + 1) mod queueSize c\<rparr>"
  obtain c' where put: "putIOCB ?c (hd (pool_free c)) = Some c'"
    and c': "pool_inv c'" "pool_free c' = tl (pool_free c) @ [hd (pool_free c)]" "used c' = used c"
      "queueSize c' = queueSize c"
    using put_back [OF inv room] by blast
  have ready': "ready ?m" using ready c cb by (intro ready_requested) simp_all
  let ?m2 = "?m\<lparr>world := w', grefs := grefs m,
      log := log m @ ESubmit (ioContext c) (hd (pool_free c)) r # delete_log (cookie_of h),
      ctls := (ctls m)(p \<mapsto> c')\<rparr>"
  have drop: "drop_ref (cookie_of h) (grefs ?m) = grefs m"
    using fresh by (auto simp: drop_ref_def cookie_of_def fresh_ref_def ref Let_def fun_upd_idem)
  have live: "grefs ?m k \<noteq> None" if "iocb_data (cb\<lparr>iocb_data := cookie_of h\<rparr>) = DRef k" for k
    using that by (auto simp: cookie_of_def split: if_splits)
  have "submit env p (hd (pool_free c)) ?m
      = Some (False, raised env IOException ''Error while submitting IO: '' (- r)
        (?m\<lparr>world := w', grefs := drop_ref (cookie_of h) (grefs ?m),
          log := log ?m @ ESubmit (ioContext c) (hd (pool_free c)) r # delete_log (cookie_of h),
          ctls := (ctls ?m)(p \<mapsto> the (putIOCB ?c (hd (pool_free c))))\<rparr>))"
    using submit_rejected [where m = ?m and p = p and q = "hd (pool_free c)" and env = env
      and c = ?c and cb = "cb\<lparr>iocb_data := cookie_of h\<rparr>",
      OF _ taken_inv(1) [OF inv room] _ _ r live ready'] sub by simp
  also have "\<dots> = Some (False, raised env IOException ''Error while submitting IO: '' (- r) ?m2)"
    unfolding drop put by simp
  finally have "submit env p (hd (pool_free c)) ?m
      = Some (False, raised env IOException ''Error while submitting IO: '' (- r) ?m2)" .
  moreover have "ready ?m2"
    using ready' c by (auto simp: ready_def heap_ok_def unallocated_def classes_loaded_def)
  ultimately show ?thesis
    using submit_request_step [OF assms(1) p c inv room cb ref, of prep fd position nbytes buffer] c'
      raised_text [of env IOException "''Error while submitting IO: ''" "- r" ?m2]
    by (auto simp: raised_ready prep requested_def put)
qed

lemma request_rejected:
  assumes "env_GetDirectBufferAddress env cp (world m) = p" and ok: "ctx_ok p m"
    and c: "ctls m p = Some c" and room: "used c < queueSize c"
    and cb: "iocbs m (hd (pool_free c)) = Some blk"
    and ref: "env_NewGlobalRef env callback (world m) = (h, w)"
    and fresh: "fresh_ref env m callback" and ready: "ready m"
    and prep: "cb = prep blk fd (env_GetDirectBufferAddress env buffer (world m)) (size_t nbytes) position"
    and sub: "env_io_submit env (ioContext c) (hd (pool_free c)) (cb\<lparr>iocb_data := cookie_of h\<rparr>) w = (r, w')"
    and r: "r < 0"
  shows "\<exists>m' c'. submit_request env prep fd cp position nbytes buffer callback m = Some m'
    \<and> (\<exists>text. exc m' = Some (IOException text)
        \<and> (text = None \<or> (\<exists>s. text = Some (''Error while submitting IO: '' @ s)))) \<and> ready m'
    \<and> grefs m' = grefs m \<and> ctls m' = (ctls m)(p \<mapsto> c') \<and> pool_inv c'
    \<and> pool_free c' = tl (pool_free c) @ [hd (pool_free c)] \<and> used c' = used c
    \<and> queueSize c' = queueSize c
    \<and> iocbs m' = (iocbs m)(hd (pool_free c) \<mapsto> cb\<lparr>iocb_data := cookie_of h\<rparr>)
    \<and> blocks m' = blocks m \<and> arrays m' = arrays m \<and> cstrings m' = cstrings m"
  using request_rejected_put [where prep = prep and fd = fd and buffer = buffer and nbytes = nbytes
    and position = position, OF assms] by blast

lemma request_full:
  assumes "env_GetDirectBufferAddress env cp (world m) = p" and ok: "ctx_ok p m"
    and c: "ctls m p = Some c" and full: "used c = queueSize c" and "classes_loaded m"
  shows "submit_request env prep fd cp position nbytes buffer callback m =
    Some (m\<lparr>exc := Some (IOException (Some ''Not enough space in libaio queue''))\<rparr>)"
proof -
  from ok c have inv: "pool_inv c" and p: "p \<noteq> NULL" by (simp_all add: ctx_ok_def)
  from assms p show ?thesis
    by (simp add: submit_request_def getIOControl_ptr getIOCB_at_full [OF c inv full]
      throwIOException_def ThrowNew_def classes_loaded_def)
qed

lemma request_uninitialised:
  assumes "env_GetDirectBufferAddress env cp (world m) = NULL" and "classes_loaded m"
  shows "submit_request env prep fd cp position nbytes buffer callback m =
    Some (m\<lparr>exc := Some (RuntimeException (Some ''Controller not initialized''))\<rparr>)"
  using assms by (simp add: submit_request_def getIOControl_null)

lemma request_invariant:
  assumes ptr: "env_GetDirectBufferAddress env cp (world m) \<in> {NULL, p}" and ok: "ctx_ok p m"
    and fresh: "fresh_ref env m callback" and ready: "ready m"
  shows "\<exists>m'. submit_request env prep fd cp position nbytes buffer callback m = Some m'
    \<and> ctx_ok p m' \<and> ready m'"
proof (cases "env_GetDirectBufferAddress env cp (world m) = NULL")
  case True
  with ok ready request_uninitialised [OF True] show ?thesis by (simp add: ready_def [of m])
next
  case False
  with ptr have ptr: "env_GetDirectBufferAddress env cp (world m) = p" by simp
  from ok obtain c where c: "ctls m p = Some c" and inv: "pool_inv c"
    and live: "set (pool_free c) \<subseteq> dom (iocbs m)" and p: "p \<noteq> NULL" by (rule ctx_okE)
  show ?thesis
  proof (cases "used c = queueSize c")
    case True
    with request_full [OF ptr ok c True] ok ready show ?thesis by (simp add: ready_def [of m])
  next
    case False
    with inv have room: "used c < queueSize c" by (simp add: pool_inv_def)
    note taken = taken_inv [OF inv room]
    have sub_tl: "set (tl (pool_free c)) \<subseteq> dom (iocbs m)"
      using live taken(4) by (auto dest: list.set_sel(2))
    obtain blk where cb: "iocbs m (hd (pool_free c)) = Some blk"
      using free_iocb_live [OF ok c room] by blast
    obtain h w where ref: "env_NewGlobalRef env callback (world m) = (h, w)" by fastforce
    define cb1 where
      "cb1 = prep blk fd (env_GetDirectBufferAddress env buffer (world m)) (size_t nbytes) position"
    obtain r w' where sub: "env_io_submit env (ioContext c) (hd (pool_free c))
        (cb1\<lparr>iocb_data := cookie_of h\<rparr>) w = (r, w')" by fastforce
    show ?thesis
    proof (cases "0 \<le> r")
      case True
      note acc = request_accepted [where prep = prep and fd = fd and buffer = buffer and nbytes = nbytes
        and position = position, OF ptr ok c room cb ref cb1_def sub True]
      have "ready (requested p c cb1 h callback w m)" using ready c cb by (intro ready_requested) simp_all
      then show ?thesis
        unfolding acc using taken sub_tl p by (auto simp: ctx_ok_def)
    next
      case False
      then have "r < 0" by simp
      from request_rejected [where prep = prep and fd = fd and buffer = buffer and nbytes = nbytes
        and position = position, OF ptr ok c room cb ref fresh ready cb1_def sub this] sub_tl p
      show ?thesis by (fastforce simp: ctx_ok_def)
    qed
  qed
qed

text \<open>With a free control block the request reaches the kernel: it is either in flight or undone.\<close>

lemma request_outcome:
  assumes ptr: "env_GetDirectBufferAddress env cp (world m) = p" and ok: "ctx_ok p m"
    and c: "ctls m p = Some c" and room: "used c < queueSize c"
    and fresh: "fresh_ref env m callback" and ready: "ready m" and exc: "exc m = None"
  shows "\<exists>m' c'. submit_request env prep fd cp position nbytes buffer callback m = Some m'
    \<and> ctls m' p = Some c' \<and> ctx_ok p m' \<and> ready m' \<and> queueSize c' = queueSize c
    \<and> (if exc m' = None then used c' = used c + 1
       else used c' = used c \<and> exc m' \<noteq> Some (IOException (Some ''Not enough space in libaio queue'')))"
proof -
  from ok c have inv: "pool_inv c" by (simp add: ctx_ok_def)
  obtain blk where cb: "iocbs m (hd (pool_free c)) = Some blk"
    using free_iocb_live [OF ok c room] by blast
  obtain h w where ref: "env_NewGlobalRef env callback (world m) = (h, w)" by fastforce
  define cb1 where
    "cb1 = prep blk fd (env_GetDirectBufferAddress env buffer (world m)) (size_t nbytes) position"
  obtain r w' where sub: "env_io_submit env (ioContext c) (hd (pool_free c))
      (cb1\<lparr>iocb_data := cookie_of h\<rparr>) w = (r, w')" by fastforce
  obtain m' where run: "submit_request env prep fd cp position nbytes buffer callback m = Some m'"
    "ctx_ok p m'" "ready m'"
    using request_invariant [OF _ ok fresh ready, of cp prep fd position nbytes buffer] ptr by auto
  show ?thesis
  proof (cases "0 \<le> r")
    case True
    note acc = request_accepted [where prep = prep and fd = fd and buffer = buffer and nbytes = nbytes
      and position = position, OF ptr ok c room cb ref cb1_def sub True]
    with run exc show ?thesis by (auto simp: requested_def)
  next
    case False
    then have "r < 0" by simp
    from request_rejected [where prep = prep and fd = fd and buffer = buffer and nbytes = nbytes
      and position = position, OF ptr ok c room cb ref fresh ready cb1_def sub this] run
    show ?thesis by fastforce
  qed
qed

subsection \<open>Properties of submission\<close>

text \<open>C2: a write that the kernel accepts. The oldest free control block of the context is taken,
  prepared for the file, buffer, size and position of the call and tied to a new global
  reference to the callback; exactly one \<open>io_submit\<close> is made; no exception is raised and nothing
  else in the library's state changes.\<close>

theorem submitWrite_accepted:
  assumes "env_GetDirectBufferAddress env cp (world m) = p" and "ctx_ok p m"
    and "ctls m p = Some c" and "used c < queueSize c"
    and "iocbs m (hd (pool_free c)) = Some blk"
    and "env_NewGlobalRef env callback (world m) = (h, w)"
    and "cb = (env_prep_pwrite env blk fd (env_GetDirectBufferAddress env buffer (world m))
           (size_t nbytes) position)\<lparr>iocb_data := cookie_of h\<rparr>"
    and "env_io_submit env (ioContext c) (hd (pool_free c)) cb w = (r, w')" and "0 \<le> r"
  shows "\<exists>m' c'. submitWrite env fd cp position nbytes buffer callback m = Some m'
    \<and> ctls m' = (ctls m)(p \<mapsto> c') \<and> pool_inv c' \<and> pool_free c = hd (pool_free c) # pool_free c'
    \<and> used c' = used c + 1
    \<and> iocbs m' = (iocbs m)(hd (pool_free c) \<mapsto> cb)
    \<and> grefs m' = (if h = 0 then grefs m else (grefs m)(h \<mapsto> callback))
    \<and> log m' = log m @ [ESubmit (ioContext c) (hd (pool_free c)) r]
    \<and> exc m' = exc m \<and> world m' = w' \<and> blocks m' = blocks m \<and> arrays m' = arrays m
    \<and> rings m' = rings m \<and> forceSysCall m' = forceSysCall m"
proof -
  from assms(2,3) have inv: "pool_inv c" by (auto simp: ctx_ok_def)
  note acc = request_accepted [OF assms(1-6) refl _ assms(9), where prep = "env_prep_pwrite env"
    and fd = fd and buffer = buffer and nbytes = nbytes and position = position]
  note taken = taken_inv [OF inv assms(4)]
  from acc assms(7,8) taken show ?thesis
    by (auto simp: submitWrite_request requested_def)
qed

theorem submitWrite_accepted_witness:
  "\<exists>m' c'. submitWrite sample_env 6 10 512 1024 50 77 (sample_machine 0 1) = Some m'
    \<and> ctls m' 10 = Some c' \<and> used c' = 1 \<and> grefs m' 177 = Some 77
    \<and> log m' = [ESubmit 9000 20 1]"
  using submitWrite_accepted [where env = sample_env and cp = 10 and m = "sample_machine 0 1" and p = 10
      and c = "sample_control 0" and blk = "sample_iocb 6 DNull" and callback = 77 and h = 177
      and w = 1 and w' = 1 and r = 1 and fd = 6 and buffer = 50 and nbytes = 1024 and position = 512,
      OF _ _ _ _ _ _ refl]
    sample_pool_inv
  by (auto simp: ctx_ok_def)

text \<open>C6: a write that the kernel refuses is undone. The global reference is deleted, the control
  block is back in the pool (at the end of the line), an \<open>IOException\<close> is pending, and no heap
  block, not even the message of the exception, is left behind.\<close>

theorem submitWrite_rejected:
  assumes "env_GetDirectBufferAddress env cp (world m) = p" and "ctx_ok p m"
    and "ctls m p = Some c" and "used c < queueSize c"
    and "iocbs m (hd (pool_free c)) = Some blk"
    and "env_NewGlobalRef env callback (world m) = (h, w)"
    and "fresh_ref env m callback" and "ready m"
    and "cb = (env_prep_pwrite env blk fd (env_GetDirectBufferAddress env buffer (world m))
           (size_t nbytes) position)\<lparr>iocb_data := cookie_of h\<rparr>"
    and "env_io_submit env (ioContext c) (hd (pool_free c)) cb w = (r, w')" and "r < 0"
  shows "\<exists>m' c'. submitWrite env fd cp position nbytes buffer callback m = Some m'
    \<and> (\<exists>text. exc m' = Some (IOException text)) \<and> ready m'
    \<and> grefs m' = grefs m \<and> ctls m' = (ctls m)(p \<mapsto> c') \<and> pool_inv c'
    \<and> pool_free c' = tl (pool_free c) @ [hd (pool_free c)] \<and> used c' = used c
    \<and> dom (iocbs m') = dom (iocbs m)
    \<and> blocks m' = blocks m \<and> arrays m' = arrays m \<and> cstrings m' = cstrings m"
proof -
  have sub: "env_io_submit env (ioContext c) (hd (pool_free c))
      ((env_prep_pwrite env blk fd (env_GetDirectBufferAddress env buffer (world m))
           (size_t nbytes) position)\<lparr>iocb_data := cookie_of h\<rparr>) w = (r, w')"
    using assms(9,10) by simp
  have dom: "(dom (iocbs m) \<union> {hd (pool_free c)}) = dom (iocbs m)" using assms(5) by auto
  from request_rejected [where prep = "env_prep_pwrite env" and fd = fd and buffer = buffer
      and nbytes = nbytes and position = position, OF assms(1-8) refl sub assms(11)] dom
  show ?thesis unfolding submitWrite_request by fastforce
qed

theorem submitWrite_rejected_witness:
  "\<exists>m' c'. submitWrite sample_env 6 10 512 1024 50 77 (sample_machine 1 0) = Some m'
    \<and> (\<exists>text. exc m' = Some (IOException text)) \<and> grefs m' = [90 \<mapsto> 1] \<and> ctls m' 10 = Some c'
    \<and> used c' = 1"
  using submitWrite_rejected [where env = sample_env and cp = 10 and m = "sample_machine 1 0" and p = 10
      and c = "sample_control 1" and blk = "sample_iocb 6 DNull" and callback = 77 and h = 177
      and w = 0 and w' = 0 and r = "-11" and fd = 6 and buffer = 50 and nbytes = 1024 and position = 512,
      OF _ _ _ _ _ _ _ _ refl]
    sample_pool_inv sample_ready
  by (auto simp: ctx_ok_def fresh_ref_def)

text \<open>C31: with every control block in use, a submission raises \<open>IOException\<close>, asks the kernel for
  nothing and changes nothing else.\<close>

theorem submit_pool_exhausted:
  assumes "env_GetDirectBufferAddress env cp (world m) = p" and "ctx_ok p m"
    and "ctls m p = Some c" and "used c = queueSize c" and "classes_loaded m"
  shows "submitWrite env fd cp position nbytes buffer callback m =
      Some (m\<lparr>exc := Some (IOException (Some ''Not enough space in libaio queue''))\<rparr>)
    \<and> submitRead env fd cp position nbytes buffer callback m =
      Some (m\<lparr>exc := Some (IOException (Some ''Not enough space in libaio queue''))\<rparr>)"
  using request_full [OF assms] by (simp add: submitWrite_request submitRead_request)

theorem submit_pool_exhausted_witness:
  "submitRead sample_env 6 10 512 1024 50 77 (sample_machine 3 1) =
    Some ((sample_machine 3 1)\<lparr>exc := Some (IOException (Some ''Not enough space in libaio queue''))\<rparr>)"
proof -
  have "ctx_ok 10 (sample_machine 3 1)" using sample_pool_inv by (simp add: ctx_ok_def)
  with submit_pool_exhausted [where env = sample_env and cp = 10 and m = "sample_machine 3 1"
      and p = 10 and c = "sample_control 3"] sample_ready [of 3 1]
  show ?thesis by (simp add: ready_def)
qed

text \<open>C15: on every branch, whatever the kernel, the allocator and the JVM answer, a submission
  returns and leaves the context well-formed: the pool invariant holds, the lock is free, and
  every control block at rest is live memory. It also refuses a context that was never created.\<close>

theorem submit_keeps_context:
  assumes "env_GetDirectBufferAddress env cp (world m) \<in> {NULL, p}" and "ctx_ok p m"
    and "fresh_ref env m callback" and "ready m"
  shows "\<exists>m1 m2. submitRead env fd cp position nbytes buffer callback m = Some m1
    \<and> ctx_ok p m1 \<and> ready m1
    \<and> submitWrite env fd cp position nbytes buffer callback m = Some m2 \<and> ctx_ok p m2 \<and> ready m2"
  using request_invariant [OF assms, of "env_prep_pread env"]
    request_invariant [OF assms, of "env_prep_pwrite env"]
  by (fastforce simp: submitWrite_request submitRead_request)

theorem submit_keeps_context_witness:
  "\<exists>m1. submitRead sample_env 6 10 0 8 50 77 (sample_machine 1 0) = Some m1 \<and> ctx_ok 10 m1"
proof -
  have "ctx_ok 10 (sample_machine 1 0)" using sample_pool_inv by (simp add: ctx_ok_def)
  with submit_keeps_context [where env = sample_env and cp = 10 and m = "sample_machine 1 0"
      and p = 10 and callback = 77] sample_ready
  show ?thesis by (fastforce simp: fresh_ref_def)
qed

end
