(* ===== verification/Poll.thy ===== *)
theory Poll
  imports Submit
begin

section \<open>Polling for completions\<close>

text \<open>
  \<open>poll\<close>, which fills a Java array with the callbacks of the completed requests, and
  \<open>blockedPoll\<close>, the loop of a dedicated thread, which calls back into Java for each
  completion until the dumb write of \<open>deleteContext\<close> arrives. Both reap through
  \<open>ringio_get_events\<close> and return every control block to the pool.
\<close>

definition EINTR :: int where "EINTR = 4"

text \<open>\<open>(int)event->res\<close>.\<close>

definition eventResult_of :: "io_event \<Rightarrow> int" where
  "eventResult_of event = to_int32 (uint (ev_res event))"

text \<open>\<open>ringio_get_events(theControl->ioContext, min, max, theControl->events, 0)\<close>.\<close>

definition reap_at ::
  "'w env \<Rightarrow> addr \<Rightarrow> int \<Rightarrow> int \<Rightarrow> 'w machine \<Rightarrow> (int \<times> 'w machine) option" where
  "reap_at env theControl min_nr max_nr m = do {
     c \<leftarrow> ctls m theControl;
     ring \<leftarrow> rings m (ioContext c);
     (result, evs, ring, w) \<leftarrow>
       ringio_get_events (env_getevents env) (forceSysCall m) (ioContext c) min_nr max_nr
         (events_arr c) None ring (world m);
     Some (result, m\<lparr>ctls := (ctls m)(theControl \<mapsto> c\<lparr>events_arr := evs\<rparr>),
       rings := (rings m)(ioContext c \<mapsto> ring), world := w\<rparr>) }"

subsection \<open>blockedPoll\<close>

definition duplicate_warning :: string where
  "duplicate_warning = ''Warning from ActiveMQ Artemis Native Layer: Your system is hitting duplicate / invalid records from libaio, which is a bug on the Linux Kernel you are using.'' @ [CHR 0x0A] @ ''You should set property org.apache.activemq.artemis.native.jlibaio.FORCE_SYSCALL=1'' @ [CHR 0x0A] @ ''or upgrade to a kernel version that contains a fix''"

text \<open>The steps of one event, in the order of the source. The file is synced, a failure is reported.\<close>

definition sync_file :: "'w env \<Rightarrow> int \<Rightarrow> 'w action" where
  "sync_file env fd m = Some (emit (EFdatasync fd) (m\<lparr>world := env_fdatasync env fd (world m)\<rparr>))"

definition report_error :: "'w env \<Rightarrow> io_event \<Rightarrow> cookie \<Rightarrow> 'w action" where
  "report_error env event data m =
     (let eventResult = eventResult_of event
      in if eventResult < 0 \<and> data \<noteq> DNull then do {
           obj \<leftarrow> deref_cookie data m;
           CallVoidMethod env (errorMethod m)
             (CallOnError obj (to_int32 (- eventResult)) (env_strerror env (- eventResult))) m }
         else Some m)"

text \<open>The user data is cleared; when there was some, the control block goes back to the pool, \<open>done\<close> is
  called and the reference deleted; otherwise the event counts as a duplicate.\<close>

definition clear_data :: "addr \<Rightarrow> 'w action" where
  "clear_data iocbp m = do {
     cb \<leftarrow> iocbs m iocbp;
     Some (m\<lparr>iocbs := (iocbs m)(iocbp \<mapsto> cb\<lparr>iocb_data := DNull\<rparr>)\<rparr>) }"

definition upcall_done :: "'w env \<Rightarrow> addr \<Rightarrow> cookie \<Rightarrow> 'w action" where
  "upcall_done env theControl obj m = do {
     c \<leftarrow> ctls m theControl;
     this \<leftarrow> grefs m (thisObject c);
     info \<leftarrow> deref_cookie obj m;
     CallVoidMethod env (libaioContextDone m) (CallDone this info) m }"

definition delete_ref :: "cookie \<Rightarrow> 'w action" where
  "delete_ref obj m = (case obj of DRef h \<Rightarrow> DeleteGlobalRef h m | _ \<Rightarrow> None)"

definition warn_duplicate :: "'w action" where
  "warn_duplicate m =
     (let m = (if \<not> forceSysCall m then emit (EStdout duplicate_warning) m else m)
      in Some (m\<lparr>forceSysCall := True\<rparr>))"

definition event_actions :: "'w env \<Rightarrow> addr \<Rightarrow> addr \<Rightarrow> cookie \<Rightarrow> 'w action list" where
  "event_actions env theControl iocbp obj =
     clear_data iocbp #
     (if obj \<noteq> DNull
      then [putIOCB_at theControl iocbp, upcall_done env theControl obj, delete_ref obj]
      else [warn_duplicate])"

text \<open>The body of the loop, as the actions it takes: whether the loop goes on, the file last synced, and
  the actions one after the other.\<close>

definition event_code ::
  "'w env \<Rightarrow> addr \<Rightarrow> bool \<Rightarrow> io_event \<Rightarrow> int \<Rightarrow> 'w machine \<Rightarrow> (bool \<times> int \<times> 'w action list) option" where
  "event_code env theControl useFdatasync event lastFile m = do {
     let iocbp = ev_obj event;
     cb \<leftarrow> iocbs m iocbp;
     if aio_fildes cb = dumbWriteHandler m
     then Some (False, lastFile, [putIOCB_at theControl iocbp])
     else do {
       let (lastFile, sync) =
         (if useFdatasync \<and> lastFile \<noteq> aio_fildes cb
          then (aio_fildes cb, [sync_file env (aio_fildes cb)]) else (lastFile, []));
       Some (True, lastFile, sync @ report_error env event (iocb_data cb)
         # event_actions env theControl iocbp (iocb_data cb)) } }"

definition blockedPoll_event ::
  "'w env \<Rightarrow> addr \<Rightarrow> bool \<Rightarrow> io_event \<Rightarrow> int \<Rightarrow> 'w machine \<Rightarrow> (bool \<times> int \<times> 'w machine) option" where
  "blockedPoll_event env theControl useFdatasync event lastFile m = do {
     (running, lastFile, actions) \<leftarrow> event_code env theControl useFdatasync event lastFile m;
     m \<leftarrow> run_actions actions m;
     Some (running, lastFile, m) }"

lemmas event_defs = blockedPoll_event_def event_code_def sync_file_def report_error_def event_actions_def clear_data_def
  upcall_done_def delete_ref_def warn_duplicate_def

text \<open>The \<open>for\<close> loop over the events; the first counter is the number of events left.\<close>

fun blockedPoll_events ::
  "'w env \<Rightarrow> addr \<Rightarrow> bool \<Rightarrow> nat \<Rightarrow> nat \<Rightarrow> int \<Rightarrow> 'w machine \<Rightarrow> (bool \<times> 'w machine) option" where
  "blockedPoll_events env theControl useFdatasync 0 i lastFile m = Some (True, m)"
| "blockedPoll_events env theControl useFdatasync (Suc k) i lastFile m = do {
     c \<leftarrow> ctls m theControl;
     event \<leftarrow> arr_get (events_arr c) (int i);
     (running, lastFile, m) \<leftarrow> blockedPoll_event env theControl useFdatasync event lastFile m;
     if running then blockedPoll_events env theControl useFdatasync k (Suc i) lastFile m
     else Some (False, m) }"

text \<open>One round of the \<open>while\<close> loop.\<close>

definition blockedPoll_round ::
  "'w env \<Rightarrow> addr \<Rightarrow> bool \<Rightarrow> int \<Rightarrow> 'w machine \<Rightarrow> (bool \<times> 'w machine) option" where
  "blockedPoll_round env theControl useFdatasync max_nr m = do {
     (result, m) \<leftarrow> reap_at env theControl 1 max_nr m;
     if result = - EINTR then Some (True, m)
     else if result < 0 then do {
       m \<leftarrow> throwIOExceptionErrorNo env ''Error while calling io_getevents IO: '' (- result) m;
       Some (False, m) }
     else blockedPoll_events env theControl useFdatasync (nat result) 0 (-1) m }"

text \<open>
  The loop runs while the kernel and the other threads go on: \<open>others\<close> is what they do to the
  machine while the poller waits in a round. \<open>fuel\<close> bounds the number of rounds; the result
  says whether the loop is still running when it is used up.
\<close>

fun blockedPoll_loop ::
  "'w env \<Rightarrow> ('w machine \<Rightarrow> 'w machine) \<Rightarrow> addr \<Rightarrow> bool \<Rightarrow> int \<Rightarrow> nat \<Rightarrow> 'w machine
    \<Rightarrow> (bool \<times> 'w machine) option" where
  "blockedPoll_loop env others theControl useFdatasync max_nr 0 m = Some (True, m)"
| "blockedPoll_loop env others theControl useFdatasync max_nr (Suc fuel) m = do {
     (running, m) \<leftarrow> blockedPoll_round env theControl useFdatasync max_nr (others m);
     if running then blockedPoll_loop env others theControl useFdatasync max_nr fuel m
     else Some (False, m) }"

definition lock_pollLock :: "addr \<Rightarrow> 'w machine \<Rightarrow> 'w machine option" where
  [machine_simps]: "lock_pollLock p m = do {
     c \<leftarrow> ctls m p;
     l \<leftarrow> mutex_lock (pollLock c);
     Some (m\<lparr>ctls := (ctls m)(p \<mapsto> c\<lparr>pollLock := l\<rparr>)\<rparr>) }"

definition unlock_pollLock :: "addr \<Rightarrow> 'w machine \<Rightarrow> 'w machine option" where
  [machine_simps]: "unlock_pollLock p m = do {
     c \<leftarrow> ctls m p;
     l \<leftarrow> mutex_unlock (pollLock c);
     Some (m\<lparr>ctls := (ctls m)(p \<mapsto> c\<lparr>pollLock := l\<rparr>)\<rparr>) }"

definition blockedPoll ::
  "'w env \<Rightarrow> ('w machine \<Rightarrow> 'w machine) \<Rightarrow> nat \<Rightarrow> jobject \<Rightarrow> bool \<Rightarrow> 'w machine
    \<Rightarrow> (bool \<times> 'w machine) option" where
  "blockedPoll env others fuel contextPointer useFdatasync m = do {
     (theControl, m) \<leftarrow> getIOControl env contextPointer m;
     if theControl = NULL then Some (False, m) else do {
       c \<leftarrow> ctls m theControl;
       let max_nr = queueSize c;
       m \<leftarrow> lock_pollLock theControl m;
       (running, m) \<leftarrow> blockedPoll_loop env others theControl useFdatasync max_nr fuel m;
       if running then Some (True, m) else do {
         m \<leftarrow> unlock_pollLock theControl m;
         Some (False, m) } } }"

subsection \<open>poll\<close>

text \<open>Storing into a Java array of objects; out of its bounds an exception is pending.\<close>

definition SetObjectArrayElement ::
  "jobject list \<Rightarrow> nat \<Rightarrow> jobject \<Rightarrow> 'w machine \<Rightarrow> jobject list \<times> 'w machine" where
  "SetObjectArrayElement callbacks i obj m =
     (if i < length callbacks then (callbacks[i := obj], m)
      else (callbacks, m\<lparr>exc := Some ArrayIndexOutOfBoundsException\<rparr>))"

definition poll_event ::
  "'w env \<Rightarrow> addr \<Rightarrow> nat \<Rightarrow> io_event \<Rightarrow> jobject list \<Rightarrow> 'w machine
    \<Rightarrow> (jobject list \<times> 'w machine) option" where
  "poll_event env theControl i event callbacks m = do {
     let iocbp = ev_obj event;
     cb \<leftarrow> iocbs m iocbp;
     let eventResult = eventResult_of event;
     m \<leftarrow> (if eventResult < 0 \<and> iocb_data cb \<noteq> DNull \<and> iocb_data cb \<noteq> DMinusOne then do {
             obj \<leftarrow> deref_cookie (iocb_data cb) m;
             CallVoidMethod env (errorMethod m)
               (CallOnError obj (to_int32 (- eventResult)) (env_strerror env (- eventResult))) m }
           else Some m);
     (callbacks, m) \<leftarrow>
       (case iocb_data cb of
          DRef h \<Rightarrow> do {
            obj \<leftarrow> grefs m h;
            let (callbacks, m) = SetObjectArrayElement callbacks i obj m;
            m \<leftarrow> DeleteGlobalRef h m;
            Some (callbacks, m) }
        | _ \<Rightarrow> Some (callbacks, m));
     m \<leftarrow> putIOCB_at theControl iocbp m;
     Some (callbacks, m) }"

fun poll_events ::
  "'w env \<Rightarrow> addr \<Rightarrow> nat \<Rightarrow> nat \<Rightarrow> jobject list \<Rightarrow> 'w machine
    \<Rightarrow> (jobject list \<times> 'w machine) option" where
  "poll_events env theControl 0 i callbacks m = Some (callbacks, m)"
| "poll_events env theControl (Suc k) i callbacks m = do {
     c \<leftarrow> ctls m theControl;
     event \<leftarrow> arr_get (events_arr c) (int i);
     (callbacks, m) \<leftarrow> poll_event env theControl i event callbacks m;
     poll_events env theControl k (Suc i) callbacks m }"

definition poll ::
  "'w env \<Rightarrow> jobject \<Rightarrow> jobject list \<Rightarrow> int \<Rightarrow> int \<Rightarrow> 'w machine
    \<Rightarrow> (int \<times> jobject list \<times> 'w machine) option" where
  "poll env contextPointer callbacks min_nr max_nr m = do {
     (theControl, m) \<leftarrow> getIOControl env contextPointer m;
     if theControl = NULL then Some (0, callbacks, m) else do {
       (result, m) \<leftarrow> reap_at env theControl min_nr max_nr m;
       let retVal = result;
       (callbacks, m) \<leftarrow> poll_events env theControl (nat result) 0 callbacks m;
       Some (retVal, callbacks, m) } }"

subsection \<open>A batch of completions\<close>

text \<open>The control block, the reference and the callback that an event stands for.\<close>

definition cb_of :: "'w machine \<Rightarrow> io_event \<Rightarrow> iocb" where
  "cb_of m e = the (iocbs m (ev_obj e))"

definition ref_of :: "'w machine \<Rightarrow> io_event \<Rightarrow> nat" where
  "ref_of m e = (case iocb_data (cb_of m e) of DRef h \<Rightarrow> h | _ \<Rightarrow> 0)"

definition obj_of :: "'w machine \<Rightarrow> io_event \<Rightarrow> jobject" where
  "obj_of m e = the (grefs m (ref_of m e))"

text \<open>An event of a request that was submitted with a callback and has not been handled yet.\<close>

definition completes :: "'w machine \<Rightarrow> nat \<Rightarrow> io_event \<Rightarrow> bool" where
  "completes m this_ref e \<longleftrightarrow> ev_obj e \<noteq> NULL \<and> iocbs m (ev_obj e) \<noteq> None
     \<and> iocb_data (cb_of m e) = DRef (ref_of m e) \<and> grefs m (ref_of m e) \<noteq> None
     \<and> ref_of m e \<noteq> this_ref"

text \<open>What the handling of one event leaves in the log.\<close>

definition error_log :: "'w env \<Rightarrow> jobject \<Rightarrow> io_event \<Rightarrow> effect list" where
  "error_log env obj e =
     (if eventResult_of e < 0
      then [EUpcall (CallOnError obj (to_int32 (- eventResult_of e)) (env_strerror env (- eventResult_of e)))]
      else [])"

definition event_log ::
  "'w env \<Rightarrow> bool \<Rightarrow> jobject \<Rightarrow> int \<Rightarrow> 'w machine \<Rightarrow> io_event \<Rightarrow> effect list" where
  "event_log env useFdatasync this lastFile m e =
     (if useFdatasync \<and> lastFile \<noteq> aio_fildes (cb_of m e) then [EFdatasync (aio_fildes (cb_of m e))] else [])
     @ error_log env (obj_of m e) e
     @ [EUpcall (CallDone this (obj_of m e)), EDeleteGlobalRef (ref_of m e)]"

definition next_file :: "bool \<Rightarrow> int \<Rightarrow> 'w machine \<Rightarrow> io_event \<Rightarrow> int" where
  "next_file useFdatasync lastFile m e =
     (if useFdatasync then aio_fildes (cb_of m e) else lastFile)"

text \<open>The machine after one event, but for the state of the world.\<close>

definition handled ::
  "'w env \<Rightarrow> bool \<Rightarrow> jobject \<Rightarrow> int \<Rightarrow> addr \<Rightarrow> io_control \<Rightarrow> io_event \<Rightarrow> 'w \<Rightarrow> 'w machine \<Rightarrow> 'w machine" where
  "handled env useFdatasync this lastFile p c' e w m =
     m\<lparr>iocbs := (iocbs m)(ev_obj e \<mapsto> (cb_of m e)\<lparr>iocb_data := DNull\<rparr>),
       ctls := (ctls m)(p \<mapsto> c'), grefs := (grefs m)(ref_of m e := None),
       log := log m @ event_log env useFdatasync this lastFile m e, world := w\<rparr>"

lemma handled_simps [simp]:
  "ctls (handled env uf this lf p c' e w m) = (ctls m)(p \<mapsto> c')"
  "iocbs (handled env uf this lf p c' e w m) =
     (iocbs m)(ev_obj e \<mapsto> (cb_of m e)\<lparr>iocb_data := DNull\<rparr>)"
  "grefs (handled env uf this lf p c' e w m) = (grefs m)(ref_of m e := None)"
  "log (handled env uf this lf p c' e w m) = log m @ event_log env uf this lf m e"
  "dumbWriteHandler (handled env uf this lf p c' e w m) = dumbWriteHandler m"
  "classes_loaded (handled env uf this lf p c' e w m) = classes_loaded m"
  "forceSysCall (handled env uf this lf p c' e w m) = forceSysCall m"
  "exc (handled env uf this lf p c' e w m) = exc m"
  "rings (handled env uf this lf p c' e w m) = rings m"
  by (simp_all add: handled_def classes_loaded_def)

lemma blockedPoll_event_completion:
  assumes c: "ctls m p = Some c" and inv: "pool_inv c" and e: "completes m (thisObject c) e"
    and tob: "grefs m (thisObject c) = Some this" and loaded: "classes_loaded m"
    and notdumb: "aio_fildes (cb_of m e) \<noteq> dumbWriteHandler m"
  shows "\<exists>w. blockedPoll_event env p uf e lf m = Some (True, next_file uf lf m e,
    handled env uf this lf p (the (putIOCB c (ev_obj e))) e w m)"
proof -
  obtain c' where put: "putIOCB c (ev_obj e) = Some c'" and same: "thisObject c' = thisObject c"
    using putIOCB_used [OF inv] by simp
  from e obtain cb where cb: "iocbs m (ev_obj e) = Some cb" by (auto simp: completes_def)
  from e cb have data: "iocb_data cb = DRef (ref_of m e)" by (auto simp: completes_def cb_of_def)
  from e obtain obj where obj: "grefs m (ref_of m e) = Some obj" by (auto simp: completes_def)
  show ?thesis
    using c put same cb data obj tob loaded notdumb
    by (cases m) (auto simp: event_defs Let_def machine_simps putIOCB_at_def next_file_def
      handled_def event_log_def error_log_def cb_of_def obj_of_def classes_loaded_def)
qed

text \<open>A batch: distinct requests with distinct references, no more of them than are in use.\<close>

definition batch_ok :: "'w machine \<Rightarrow> io_control \<Rightarrow> io_event list \<Rightarrow> bool" where
  "batch_ok m c evs \<longleftrightarrow>
     (\<forall>e \<in> set evs. completes m (thisObject c) e)
   \<and> distinct (map ev_obj evs) \<and> distinct (map (ref_of m) evs) \<and> int (length evs) \<le> used c"

text \<open>None of the events is the dumb write that stops the poller.\<close>

definition no_dumb :: "'w machine \<Rightarrow> io_event list \<Rightarrow> bool" where
  "no_dumb m evs \<longleftrightarrow> (\<forall>e \<in> set evs. aio_fildes (cb_of m e) \<noteq> dumbWriteHandler m)"

fun batch_log ::
  "'w env \<Rightarrow> bool \<Rightarrow> jobject \<Rightarrow> int \<Rightarrow> 'w machine \<Rightarrow> io_event list \<Rightarrow> effect list" where
  "batch_log env uf this lf m [] = []"
| "batch_log env uf this lf m (e # es) =
     event_log env uf this lf m e @ batch_log env uf this (next_file uf lf m e) m es"

fun last_file :: "bool \<Rightarrow> int \<Rightarrow> 'w machine \<Rightarrow> io_event list \<Rightarrow> int" where
  "last_file uf lf m [] = lf"
| "last_file uf lf m (e # es) = last_file uf (next_file uf lf m e) m es"

definition cleared :: "'w machine \<Rightarrow> io_event list \<Rightarrow> addr \<rightharpoonup> iocb" where
  "cleared m evs = (\<lambda>q. if q \<in> ev_obj ` set evs
     then map_option (\<lambda>cb. cb\<lparr>iocb_data := DNull\<rparr>) (iocbs m q) else iocbs m q)"

text \<open>The events still to come look the same after one has been handled.\<close>

lemma handled_views:
  assumes "ev_obj e' \<noteq> ev_obj e" and "ref_of m e' \<noteq> ref_of m e"
  shows "cb_of (handled env uf th lf p c' e w m) e' = cb_of m e'"
    and "ref_of (handled env uf th lf p c' e w m) e' = ref_of m e'"
    and "obj_of (handled env uf th lf p c' e w m) e' = obj_of m e'"
    and "completes (handled env uf th lf p c' e w m) r e' = completes m r e'"
  using assms by (auto simp: cb_of_def ref_of_def obj_of_def completes_def split: cookie.splits)

lemma batch_log_cong:
  assumes "\<And>e. e \<in> set es \<Longrightarrow> cb_of m1 e = cb_of m e \<and> ref_of m1 e = ref_of m e \<and> obj_of m1 e = obj_of m e"
  shows "batch_log env uf th lf m1 es = batch_log env uf th lf m es \<and> last_file uf lf m1 es = last_file uf lf m es"
  using assms by (induction es arbitrary: lf) (auto simp: event_log_def next_file_def)

lemma batch_others:
  assumes "batch_ok m c (e # es)" and "e' \<in> set es"
  shows "ev_obj e' \<noteq> ev_obj e \<and> ref_of m e' \<noteq> ref_of m e"
  using assms by (simp add: batch_ok_def) (metis image_eqI)

lemma batch_ok_handled:
  assumes "batch_ok m c (e # es)" and "thisObject c' = thisObject c" and "used c' = used c - 1"
  shows "batch_ok (handled env uf th lf p c' e w m) c' es"
proof -
  have other: "ev_obj e' \<noteq> ev_obj e \<and> ref_of m e' \<noteq> ref_of m e" if "e' \<in> set es" for e'
    using assms(1) that by (rule batch_others)
  then have refs: "map (ref_of (handled env uf th lf p c' e w m)) es = map (ref_of m) es"
    by (auto simp: handled_views)
  from assms other show ?thesis
    unfolding batch_ok_def refs by (auto simp: handled_views)
qed

text \<open>What a batch leaves behind, given what the remaining events find.\<close>

definition after_batch ::
  "'w env \<Rightarrow> bool \<Rightarrow> jobject \<Rightarrow> int \<Rightarrow> addr \<Rightarrow> io_control \<Rightarrow> io_event list \<Rightarrow> 'w machine \<Rightarrow> 'w machine
    \<Rightarrow> io_control \<Rightarrow> bool" where
  "after_batch env uf th lf p c evs m m' c' \<longleftrightarrow>
     ctls m' = (ctls m)(p \<mapsto> c') \<and> pool_inv c' \<and> pool_free c' = pool_free c @ map ev_obj evs
   \<and> used c' = used c - int (length evs)
   \<and> thisObject c' = thisObject c \<and> events_arr c' = events_arr c \<and> queueSize c' = queueSize c
   \<and> ioContext c' = ioContext c \<and> pollLock c' = pollLock c
   \<and> iocbs m' = cleared m evs \<and> grefs m' = (grefs m) |` (- (ref_of m ` set evs))
   \<and> log m' = log m @ batch_log env uf th lf m evs
   \<and> dumbWriteHandler m' = dumbWriteHandler m \<and> classes_loaded m' = classes_loaded m
   \<and> forceSysCall m' = forceSysCall m \<and> exc m' = exc m \<and> rings m' = rings m"

lemma blockedPoll_events_batch:
  assumes "ctls m p = Some c" and "pool_inv c" and "batch_ok m c evs"
    and "grefs m (thisObject c) = Some th" and "classes_loaded m"
    and "take (length evs) (drop i (events_arr c)) = evs" and "no_dumb m evs"
  shows "\<exists>m' c'. blockedPoll_events env p uf (length evs + k) i lf m
      = blockedPoll_events env p uf k (i + length evs) (last_file uf lf m evs) m'
    \<and> after_batch env uf th lf p c evs m m' c'"
  using assms
proof (induction evs arbitrary: m c i lf)
  case Nil
  then show ?case
    by (intro exI [of _ m] exI [of _ c]) (auto simp: after_batch_def cleared_def fun_upd_idem)
next
  case (Cons e es)
  from Cons.prems(3,7) have e: "completes m (thisObject c) e"
    and nd: "aio_fildes (cb_of m e) \<noteq> dumbWriteHandler m" and busy: "0 < used c"
    by (auto simp: batch_ok_def no_dumb_def)
  from e have q: "ev_obj e \<noteq> NULL" by (simp add: completes_def)
  obtain c1 where put: "putIOCB c (ev_obj e) = Some c1"
    using putIOCB_used [OF Cons.prems(2)] by blast
  note keep = putIOCB_keeps [OF Cons.prems(2) put]
  note pinv = putIOCB_inv [OF Cons.prems(2) busy q put]
  obtain w where step: "blockedPoll_event env p uf e lf m
      = Some (True, next_file uf lf m e, handled env uf th lf p c1 e w m)"
    using blockedPoll_event_completion [OF Cons.prems(1,2) e Cons.prems(4,5) nd, of env uf lf] put
    by auto
  let ?m = "handled env uf th lf p c1 e w m"
  have len: "i < length (events_arr c)" and ev: "events_arr c ! i = e"
    and rest: "take (length es) (drop (Suc i) (events_arr c)) = es"
    using take_drop_Cons [of "length es" i "events_arr c" e es] Cons.prems(6) by simp_all
  have unfold1: "blockedPoll_events env p uf (length (e # es) + k) i lf m
      = blockedPoll_events env p uf (length es + k) (Suc i) (next_file uf lf m e) ?m"
    using Cons.prems(1) len ev step by simp
  have views: "cb_of ?m e' = cb_of m e' \<and> ref_of ?m e' = ref_of m e' \<and> obj_of ?m e' = obj_of m e'"
    if "e' \<in> set es" for e'
    using batch_others [OF Cons.prems(3) that] by (simp add: handled_views)
  have "batch_ok ?m c1 es" using Cons.prems(3) keep pinv by (intro batch_ok_handled) simp_all
  moreover have "grefs ?m (thisObject c1) = Some th"
    using Cons.prems(4) e keep by (simp add: completes_def)
  moreover have "no_dumb ?m es" using Cons.prems(7) views by (simp add: no_dumb_def)
  ultimately obtain m' c' where
    run: "blockedPoll_events env p uf (length es + k) (Suc i) (next_file uf lf m e) ?m
      = blockedPoll_events env p uf k (Suc i + length es) (last_file uf (next_file uf lf m e) ?m es) m'"
    and after: "after_batch env uf th (next_file uf lf m e) p c1 es ?m m' c'"
    using Cons.IH [of ?m c1 "Suc i" "next_file uf lf m e"] Cons.prems(5) pinv keep rest by auto
  have lf: "last_file uf (next_file uf lf m e) ?m es = last_file uf lf m (e # es)"
    and bl: "batch_log env uf th (next_file uf lf m e) ?m es
      = batch_log env uf th (next_file uf lf m e) m es"
    using batch_log_cong [of es ?m m] views by simp_all
  have refs: "ref_of ?m ` set es = ref_of m ` set es" using views by (simp cong: image_cong)
  have "after_batch env uf th lf p c (e # es) m m' c'"
    using after keep pinv bl refs Cons.prems(3) e
    by (auto simp: after_batch_def cleared_def fun_eq_iff restrict_map_def batch_ok_def completes_def
      cb_of_def)
  with run unfold1 lf show ?case by (metis add_Suc_shift length_Cons)
qed

subsection \<open>The dumb write, and events that come twice\<close>

lemma blockedPoll_event_dumb:
  assumes "ctls m p = Some c" and "pool_inv c" and "iocbs m (ev_obj e) \<noteq> None"
    and "aio_fildes (cb_of m e) = dumbWriteHandler m"
  shows "blockedPoll_event env p uf e lf m
    = Some (False, lf, m\<lparr>ctls := (ctls m)(p \<mapsto> the (putIOCB c (ev_obj e)))\<rparr>)"
  using assms putIOCB_used [OF assms(2), of "ev_obj e"]
  by (auto simp: event_defs putIOCB_at_def cb_of_def)

lemma blockedPoll_event_duplicate:
  assumes "iocbs m (ev_obj e) = Some cb" and "aio_fildes cb \<noteq> dumbWriteHandler m"
    and "iocb_data cb = DNull" and "uf \<longrightarrow> lf = aio_fildes cb"
  shows "blockedPoll_event env p uf e lf m = Some (True, lf,
    m\<lparr>forceSysCall := True,
      log := log m @ (if forceSysCall m then [] else [EStdout duplicate_warning])\<rparr>)"
proof -
  have "m\<lparr>iocbs := (iocbs m)(ev_obj e \<mapsto> cb\<lparr>iocb_data := DNull\<rparr>)\<rparr> = m"
    using assms(1,3) by (cases m, cases cb) (simp add: fun_upd_idem)
  with assms show ?thesis
    by (cases m) (auto simp: event_defs Let_def emit_def)
qed

subsection \<open>Reaping from the machine\<close>

lemma reap_at_ring:
  assumes "ctls m p = Some c" and "rings m (ioContext c) = Some ring" and "ring_inv ring"
    and "ring_count ring \<le> length (events_arr c)"
    and "\<not> needs_sys_call (forceSysCall m) min_nr max_nr None ring"
  shows "reap_at env p min_nr max_nr m = Some (int (ring_count ring),
    m\<lparr>ctls := (ctls m)(p \<mapsto> c\<lparr>events_arr := ring_pending ring @ drop (ring_count ring) (events_arr c)\<rparr>),
      rings := (rings m)(ioContext c \<mapsto> ring\<lparr>head := tail ring\<rparr>)\<rparr>)"
  using assms by (cases m) (simp add: reap_at_def ringio_get_events_eq)

subsection \<open>The loop\<close>

lemma blockedPoll_loop_mono:
  "blockedPoll_loop env others p uf mx n m = Some (False, m') \<Longrightarrow>
    blockedPoll_loop env others p uf mx (n + k) m = Some (False, m')"
proof (induction n arbitrary: m)
  case 0
  then show ?case by simp
next
  case (Suc n)
  then show ?case by (auto simp: bind_Some_iff split: if_splits)
qed

lemma views_frame [simp]:
  "cb_of (m\<lparr>ctls := x\<rparr>) = cb_of m" "cb_of (m\<lparr>rings := y\<rparr>) = cb_of m"
  "ref_of (m\<lparr>ctls := x\<rparr>) = ref_of m" "ref_of (m\<lparr>rings := y\<rparr>) = ref_of m"
  "obj_of (m\<lparr>ctls := x\<rparr>) = obj_of m" "obj_of (m\<lparr>rings := y\<rparr>) = obj_of m"
  by (simp_all add: fun_eq_iff cb_of_def ref_of_def obj_of_def)

lemma batch_frame [simp]:
  "completes (m\<lparr>ctls := x\<rparr>) r e = completes m r e" "completes (m\<lparr>rings := y\<rparr>) r e = completes m r e"
  "no_dumb (m\<lparr>ctls := x\<rparr>) evs = no_dumb m evs" "no_dumb (m\<lparr>rings := y\<rparr>) evs = no_dumb m evs"
  "batch_ok (m\<lparr>ctls := x\<rparr>) c evs = batch_ok m c evs" "batch_ok (m\<lparr>rings := y\<rparr>) c evs = batch_ok m c evs"
  "batch_ok m (c\<lparr>events_arr := z\<rparr>) evs = batch_ok m c evs"
  "cleared (m\<lparr>ctls := x\<rparr>) evs = cleared m evs" "cleared (m\<lparr>rings := y\<rparr>) evs = cleared m evs"
  by (auto simp: completes_def no_dumb_def batch_ok_def cleared_def fun_eq_iff)

lemma batch_log_frame [simp]:
  "batch_log env uf th lf (m\<lparr>ctls := x\<rparr>) evs = batch_log env uf th lf m evs"
  "batch_log env uf th lf (m\<lparr>rings := y\<rparr>) evs = batch_log env uf th lf m evs"
  using batch_log_cong [of evs "m\<lparr>ctls := x\<rparr>" m] batch_log_cong [of evs "m\<lparr>rings := y\<rparr>" m] by simp_all

lemma pool_events_irrelevant [simp]:
  "pool_inv (c\<lparr>events_arr := z\<rparr>) = pool_inv c" "pool_free (c\<lparr>events_arr := z\<rparr>) = pool_free c"
  by (simp_all add: pool_inv_def pool_free_def)

text \<open>A context in the middle of its life, with the completions \<open>evs\<close> waiting in its ring.\<close>

definition waiting :: "addr \<Rightarrow> io_control \<Rightarrow> io_event list \<Rightarrow> 'w machine \<Rightarrow> bool" where
  "waiting p c evs m \<longleftrightarrow> ctls m p = Some c \<and> pool_inv c \<and> classes_loaded m
     \<and> (\<exists>ring. rings m (ioContext c) = Some ring \<and> ring_inv ring \<and> has_usable_ring ring
         \<and> ring_pending ring = evs \<and> length evs \<le> length (events_arr c))
     \<and> \<not> forceSysCall m"

lemma reap_at_waiting:
  assumes "waiting p c evs m" and "min_nr \<le> int (length evs)" and "evs \<noteq> [] \<longrightarrow> int (length evs) < max_nr"
  shows "\<exists>arr ring. reap_at env p min_nr max_nr m = Some (int (length evs),
      m\<lparr>ctls := (ctls m)(p \<mapsto> c\<lparr>events_arr := arr\<rparr>), rings := (rings m)(ioContext c \<mapsto> ring)\<rparr>)
    \<and> take (length evs) arr = evs \<and> length arr = length (events_arr c)"
proof -
  from assms(1) obtain ring where r: "ctls m p = Some c" "rings m (ioContext c) = Some ring"
    "ring_inv ring" "has_usable_ring ring" "ring_pending ring = evs" "\<not> forceSysCall m"
    "length evs \<le> length (events_arr c)" by (auto simp: waiting_def)
  from r(5) have n: "ring_count ring = length evs" using length_ring_pending [of ring] by simp
  with assms(2,3) r(4,6) have "\<not> needs_sys_call (forceSysCall m) min_nr max_nr None ring"
    by (auto simp: needs_sys_call_def)
  note reap = reap_at_ring [OF r(1-3) _ this, of env, unfolded r(5) n, OF r(7)]
  show ?thesis
    by (intro exI [of _ "evs @ drop (length evs) (events_arr c)"] exI conjI, rule reap)
      (use r(7) in simp_all)
qed

text \<open>One round that finds only completions handles them all and goes on.\<close>

lemma round_batch:
  assumes wait: "waiting p c evs m" and ok: "batch_ok m c evs" "no_dumb m evs"
    and tob: "grefs m (thisObject c) = Some th"
    and len: "0 < length evs" "int (length evs) < mx"
  shows "\<exists>m1 m' c' arr rs. blockedPoll_round env p uf mx m = Some (True, m')
    \<and> m1 = m\<lparr>ctls := (ctls m)(p \<mapsto> c\<lparr>events_arr := arr\<rparr>), rings := rs\<rparr>
    \<and> length arr = length (events_arr c)
    \<and> after_batch env uf th (-1) p (c\<lparr>events_arr := arr\<rparr>) evs m1 m' c'"
proof -
  obtain arr rs where reap: "reap_at env p 1 mx m = Some (int (length evs),
      m\<lparr>ctls := (ctls m)(p \<mapsto> c\<lparr>events_arr := arr\<rparr>), rings := rs\<rparr>)"
    and arr: "take (length evs) arr = evs" and la: "length arr = length (events_arr c)"
    using reap_at_waiting [OF wait, of 1 mx env] len by auto
  let ?m = "m\<lparr>ctls := (ctls m)(p \<mapsto> c\<lparr>events_arr := arr\<rparr>), rings := rs\<rparr>"
  from wait have "pool_inv c" "classes_loaded m" by (simp_all add: waiting_def)
  then have "\<exists>m' c'. blockedPoll_events env p uf (length evs + 0) 0 (-1) ?m
      = blockedPoll_events env p uf 0 (0 + length evs) (last_file uf (-1) ?m evs) m'
    \<and> after_batch env uf th (-1) p (c\<lparr>events_arr := arr\<rparr>) evs ?m m' c'"
    using ok tob arr by (intro blockedPoll_events_batch) (simp_all add: classes_loaded_def)
  then obtain m' c' where run: "blockedPoll_events env p uf (length evs) 0 (-1) ?m = Some (True, m')"
    and after: "after_batch env uf th (-1) p (c\<lparr>events_arr := arr\<rparr>) evs ?m m' c'" by auto
  have "blockedPoll_round env p uf mx m = Some (True, m')"
    unfolding blockedPoll_round_def reap by (simp add: EINTR_def run)
  with after la show ?thesis by blast
qed

text \<open>A round that meets the dumb write handles what came before it and stops.\<close>

lemma round_dumb:
  assumes wait: "waiting p c (evs @ d # rest) m" and ok: "batch_ok m c evs" "no_dumb m evs"
    and tob: "grefs m (thisObject c) = Some th"
    and len: "int (length (evs @ d # rest)) < mx"
    and d: "iocbs m (ev_obj d) \<noteq> None" "aio_fildes (cb_of m d) = dumbWriteHandler m"
      "ev_obj d \<noteq> NULL" "int (length evs) < used c"
  shows "\<exists>m1 m2 m' c2 c' arr rs. blockedPoll_round env p uf mx m = Some (False, m')
    \<and> m1 = m\<lparr>ctls := (ctls m)(p \<mapsto> c\<lparr>events_arr := arr\<rparr>), rings := rs\<rparr>
    \<and> after_batch env uf th (-1) p (c\<lparr>events_arr := arr\<rparr>) evs m1 m2 c2
    \<and> putIOCB c2 (ev_obj d) = Some c' \<and> m' = m2\<lparr>ctls := (ctls m2)(p \<mapsto> c')\<rparr>
    \<and> pool_inv c' \<and> pool_free c' = pool_free c @ map ev_obj evs @ [ev_obj d]
    \<and> used c' = used c - int (length evs) - 1 \<and> pollLock c' = pollLock c"
proof -
  let ?evs = "evs @ d # rest"
  obtain arr rs where reap: "reap_at env p 1 mx m = Some (int (length ?evs),
      m\<lparr>ctls := (ctls m)(p \<mapsto> c\<lparr>events_arr := arr\<rparr>), rings := rs\<rparr>)"
    and arr: "take (length ?evs) arr = ?evs"
    using reap_at_waiting [OF wait, of 1 mx env] len by auto
  let ?m = "m\<lparr>ctls := (ctls m)(p \<mapsto> c\<lparr>events_arr := arr\<rparr>), rings := rs\<rparr>"
  let ?c = "c\<lparr>events_arr := arr\<rparr>"
  have pre: "take (length evs) arr = evs"
    using arg_cong [OF arr, of "take (length evs)"] by (simp add: min_def)
  have at: "length evs < length arr" "arr ! length evs = d"
    using take_drop_Cons [of "length rest" "length evs" arr d rest]
      arg_cong [OF arr, of "drop (length evs)"] by (auto simp: drop_take)
  from wait have inv: "pool_inv c" "classes_loaded m" by (simp_all add: waiting_def)
  then have "\<exists>m2 c2. blockedPoll_events env p uf (length evs + Suc (length rest)) 0 (-1) ?m
      = blockedPoll_events env p uf (Suc (length rest)) (0 + length evs) (last_file uf (-1) ?m evs) m2
    \<and> after_batch env uf th (-1) p ?c evs ?m m2 c2"
    using ok tob pre by (intro blockedPoll_events_batch) (simp_all add: classes_loaded_def)
  then obtain m2 c2 where run: "blockedPoll_events env p uf (length ?evs) 0 (-1) ?m
      = blockedPoll_events env p uf (Suc (length rest)) (length evs) (last_file uf (-1) ?m evs) m2"
    and after: "after_batch env uf th (-1) p ?c evs ?m m2 c2" by auto
  from after have c2: "ctls m2 p = Some c2" "pool_inv c2" "events_arr c2 = arr" "pollLock c2 = pollLock c"
    "pool_free c2 = pool_free c @ map ev_obj evs" "used c2 = used c - int (length evs)"
    "dumbWriteHandler m2 = dumbWriteHandler m"
    by (simp_all add: after_batch_def)
  from after d have d2: "iocbs m2 (ev_obj d) \<noteq> None" "aio_fildes (cb_of m2 d) = dumbWriteHandler m2"
    by (auto simp: after_batch_def cleared_def cb_of_def)
  obtain c' where put: "putIOCB c2 (ev_obj d) = Some c'"
    using putIOCB_used [OF c2(2)] by blast
  have "0 < used c2" using c2 d by simp
  from putIOCB_inv [OF c2(2) this d(3) put] putIOCB_keeps [OF c2(2) put]
  have c': "pool_inv c'" "pool_free c' = pool_free c @ map ev_obj evs @ [ev_obj d]"
    "used c' = used c - int (length evs) - 1" "pollLock c' = pollLock c"
    using c2 by simp_all
  have stop: "blockedPoll_events env p uf (length ?evs) 0 (-1) ?m = Some (False, m2\<lparr>ctls := (ctls m2)(p \<mapsto> c')\<rparr>)"
    unfolding run using blockedPoll_event_dumb [OF c2(1,2) d2] c2 at put by simp
  have "blockedPoll_round env p uf mx m = Some (False, m2\<lparr>ctls := (ctls m2)(p \<mapsto> c')\<rparr>)"
    unfolding blockedPoll_round_def reap
    by (simp add: EINTR_def stop del: blockedPoll_events.simps length_append list.size)
  with after put c' show ?thesis by blast
qed

subsection \<open>What the log says\<close>

text \<open>The callbacks whose \<open>done\<close> was called, and the files that were synced, in order.\<close>

definition done_calls :: "effect list \<Rightarrow> jobject list" where
  "done_calls l = concat (map (\<lambda>x. case x of EUpcall (CallDone t obj) \<Rightarrow> [obj] | _ \<Rightarrow> []) l)"

definition synced_files :: "effect list \<Rightarrow> int list" where
  "synced_files l = concat (map (\<lambda>x. case x of EFdatasync fd \<Rightarrow> [fd] | _ \<Rightarrow> []) l)"

definition deleted_refs :: "effect list \<Rightarrow> nat list" where
  "deleted_refs l = concat (map (\<lambda>x. case x of EDeleteGlobalRef h \<Rightarrow> [h] | _ \<Rightarrow> []) l)"

lemma log_views_append [simp]:
  "done_calls (a @ b) = done_calls a @ done_calls b"
  "synced_files (a @ b) = synced_files a @ synced_files b"
  "deleted_refs (a @ b) = deleted_refs a @ deleted_refs b"
  by (simp_all add: done_calls_def synced_files_def deleted_refs_def)

lemma log_views_Nil [simp]:
  "done_calls [] = []" "synced_files [] = []" "deleted_refs [] = []"
  by (simp_all add: done_calls_def synced_files_def deleted_refs_def)

lemma log_views_other [simp]:
  "done_calls [EStdout s] = []" "synced_files [EStdout s] = []" "deleted_refs [EStdout s] = []"
  by (simp_all add: done_calls_def synced_files_def deleted_refs_def)

lemma event_log_views [simp]:
  "done_calls (event_log env uf th lf m e) = [obj_of m e]"
  "deleted_refs (event_log env uf th lf m e) = [ref_of m e]"
  "synced_files (event_log env uf th lf m e) =
     (if uf \<and> lf \<noteq> aio_fildes (cb_of m e) then [aio_fildes (cb_of m e)] else [])"
  by (simp_all add: done_calls_def synced_files_def deleted_refs_def event_log_def error_log_def)

lemma batch_log_views:
  "done_calls (batch_log env uf th lf m evs) = map (obj_of m) evs"
  "deleted_refs (batch_log env uf th lf m evs) = map (ref_of m) evs"
  by (induction evs arbitrary: lf) simp_all

lemma batch_log_no_sync: "synced_files (batch_log env False th lf m evs) = []"
  by (induction evs arbitrary: lf) simp_all

lemma batch_log_sync:
  "lf # synced_files (batch_log env True th lf m evs)
    = remdups_adj (lf # map (\<lambda>e. aio_fildes (cb_of m e)) evs)"
proof (induction evs arbitrary: lf)
  case Nil
  then show ?case by simp
next
  case (Cons e es)
  from Cons.IH [of "aio_fildes (cb_of m e)"] show ?case by (auto simp: next_file_def)
qed

lemma batch_log_append:
  "batch_log env uf th lf m (xs @ ys) =
    batch_log env uf th lf m xs @ batch_log env uf th (last_file uf lf m xs) m ys"
  by (induction xs arbitrary: lf) simp_all

lemma synced_files_mem: "fd \<in> set (synced_files l) \<longleftrightarrow> EFdatasync fd \<in> set l"
  by (auto simp: synced_files_def split: effect.splits)

text \<open>When \<open>done\<close> is called for an event, its file has been synced since the round began.\<close>

lemma synced_before_done:
  assumes "aio_fildes (cb_of m e) \<noteq> lf"
  shows "\<exists>l1 l2. batch_log env True th lf m (xs @ e # ys)
      = l1 @ EFdatasync (aio_fildes (cb_of m e)) # l2 @ EUpcall (CallDone th (obj_of m e))
        # EDeleteGlobalRef (ref_of m e) # batch_log env True th (last_file True lf m (xs @ [e])) m ys
    \<and> done_calls (l1 @ l2) = map (obj_of m) xs"
proof -
  let ?fd = "aio_fildes (cb_of m e)" and ?lf = "last_file True lf m xs"
  let ?pre = "batch_log env True th lf m xs @ (if ?lf \<noteq> ?fd then [EFdatasync ?fd] else [])
    @ error_log env (obj_of m e) e"
  have split: "batch_log env True th lf m (xs @ e # ys)
      = ?pre @ EUpcall (CallDone th (obj_of m e)) # EDeleteGlobalRef (ref_of m e)
        # batch_log env True th (last_file True lf m (xs @ [e])) m ys"
    using batch_log_append [of env True th lf m "xs @ [e]" ys]
    by (simp add: batch_log_append event_log_def)
  have "set (lf # synced_files (batch_log env True th lf m (xs @ [e])))
      = set (lf # map (\<lambda>e. aio_fildes (cb_of m e)) (xs @ [e]))"
    unfolding batch_log_sync by (rule remdups_adj_set)
  with assms have "?fd \<in> set (synced_files (batch_log env True th lf m (xs @ [e])))" by auto
  then have "EFdatasync ?fd \<in> set ?pre"
    by (auto simp: synced_files_mem batch_log_append event_log_def split: if_splits)
  then obtain l1 l2 where pre: "?pre = l1 @ EFdatasync ?fd # l2" by (meson split_list)
  have "done_calls ?pre = map (obj_of m) xs"
    by (simp add: batch_log_views error_log_def done_calls_def [of "[_]"])
  then have "done_calls (l1 @ l2) = map (obj_of m) xs"
    unfolding pre by (simp add: done_calls_def)
  with split pre show ?thesis by auto
qed

subsection \<open>Properties of blockedPoll\<close>

lemma round_batch_log:
  assumes "waiting p c evs m" and "batch_ok m c evs" and "no_dumb m evs"
    and "grefs m (thisObject c) = Some th" and "0 < length evs" and "int (length evs) < mx"
  shows "\<exists>m' c'. blockedPoll_round env p uf mx m = Some (True, m')
    \<and> ctls m' p = Some c' \<and> pool_inv c' \<and> pool_free c' = pool_free c @ map ev_obj evs
    \<and> used c' = used c - int (length evs)
    \<and> log m' = log m @ batch_log env uf th (-1) m evs
    \<and> grefs m' = (grefs m) |` (- (ref_of m ` set evs)) \<and> iocbs m' = cleared m evs
    \<and> exc m' = exc m"
  using round_batch [OF assms, of env uf] by (fastforce simp: after_batch_def)

text \<open>C1: one round of \<open>blockedPoll\<close> over any batch of completions. Every control block of the batch
  is back in the pool, in order; \<open>done\<close> is called exactly once for each callback, in the order of
  completion, and each global reference is deleted exactly once, after its call; the user data
  of each control block is cleared; no exception is raised and the loop goes on.\<close>

theorem blockedPoll_round_exactly_once:
  assumes "waiting p c evs m" and "batch_ok m c evs" and "no_dumb m evs"
    and "grefs m (thisObject c) = Some th" and "0 < length evs" and "int (length evs) < mx"
  shows "\<exists>m' c' l. blockedPoll_round env p uf mx m = Some (True, m')
    \<and> ctls m' p = Some c' \<and> pool_inv c' \<and> pool_free c' = pool_free c @ map ev_obj evs
    \<and> used c' = used c - int (length evs)
    \<and> log m' = log m @ l \<and> done_calls l = map (obj_of m) evs \<and> deleted_refs l = map (ref_of m) evs
    \<and> grefs m' = (grefs m) |` (- (ref_of m ` set evs))
    \<and> (\<forall>e \<in> set evs. iocb_data (cb_of m' e) = DNull) \<and> exc m' = exc m"
proof -
  from round_batch_log [OF assms, of env uf] obtain m' c' where
    r: "blockedPoll_round env p uf mx m = Some (True, m')" "ctls m' p = Some c'" "pool_inv c'"
    "pool_free c' = pool_free c @ map ev_obj evs" "used c' = used c - int (length evs)"
    "log m' = log m @ batch_log env uf th (-1) m evs"
    "grefs m' = (grefs m) |` (- (ref_of m ` set evs))" "iocbs m' = cleared m evs" "exc m' = exc m"
    by blast
  have "iocb_data (cb_of m' e) = DNull" if "e \<in> set evs" for e
  proof -
    from assms(2) that have "iocbs m (ev_obj e) \<noteq> None" by (simp add: batch_ok_def completes_def)
    with that show ?thesis by (auto simp: cb_of_def r(8) cleared_def)
  qed
  with r batch_log_views show ?thesis by metis
qed

lemma sample_waiting:
  "waiting 10 (sample_control 3) [sample_event 20 512, sample_event 21 (-5)] sample_poll_machine"
  using sample_ready by (simp add: waiting_def sample_poll_machine_def ready_def classes_loaded_def)

lemma sample_batch_ok:
  "batch_ok sample_poll_machine (sample_control 3) [sample_event 20 512, sample_event 21 (-5)]"
  "no_dumb sample_poll_machine [sample_event 20 512, sample_event 21 (-5)]"
  by (simp_all add: batch_ok_def no_dumb_def completes_def ref_of_def cb_of_def sample_poll_machine_def)

theorem blockedPoll_round_exactly_once_witness:
  "\<exists>m' c' l. blockedPoll_round sample_env 10 True 3 sample_poll_machine = Some (True, m')
    \<and> ctls m' 10 = Some c' \<and> pool_free c' = [20, 21] \<and> log m' = l \<and> done_calls l = [77, 78]
    \<and> deleted_refs l = [177, 178]"
  using blockedPoll_round_exactly_once [OF sample_waiting sample_batch_ok, of 1 3 sample_env True]
  by (fastforce simp: sample_poll_machine_def obj_of_def ref_of_def cb_of_def)

text \<open>C16: with \<open>useFdatasync\<close>, no callback learns of its completion before its file was synced in the
  same round: in what a round writes to the log, an \<open>fdatasync\<close> of the file of each request comes
  before the call of \<open>done\<close> for it. Consecutive completions of one file share one sync.\<close>

theorem synced_before_callback:
  assumes "waiting p c evs m" and "batch_ok m c evs" and "no_dumb m evs"
    and "grefs m (thisObject c) = Some th" and "0 < length evs" and "int (length evs) < mx"
    and "\<forall>e \<in> set evs. aio_fildes (cb_of m e) \<noteq> -1"
  shows "\<exists>m' l. blockedPoll_round env p True mx m = Some (True, m') \<and> log m' = log m @ l
    \<and> synced_files l = remdups_adj (map (\<lambda>e. aio_fildes (cb_of m e)) evs)
    \<and> (\<forall>xs e ys. evs = xs @ e # ys \<longrightarrow> (\<exists>l1 l2 l3.
        l = l1 @ EFdatasync (aio_fildes (cb_of m e)) # l2 @ EUpcall (CallDone th (obj_of m e)) # l3
        \<and> done_calls (l1 @ l2) = map (obj_of m) xs))"
proof -
  from round_batch_log [OF assms(1-6), of env True] obtain m' where
    r: "blockedPoll_round env p True mx m = Some (True, m')"
    "log m' = log m @ batch_log env True th (-1) m evs" by blast
  have "(-1) # synced_files (batch_log env True th (-1) m evs)
      = remdups_adj ((-1) # map (\<lambda>e. aio_fildes (cb_of m e)) evs)" by (rule batch_log_sync)
  also have "\<dots> = (-1) # remdups_adj (map (\<lambda>e. aio_fildes (cb_of m e)) evs)"
    using assms(7) by (cases evs) auto
  finally have "synced_files (batch_log env True th (-1) m evs)
      = remdups_adj (map (\<lambda>e. aio_fildes (cb_of m e)) evs)" by simp
  moreover have "\<exists>l1 l2 l3. batch_log env True th (-1) m evs
        = l1 @ EFdatasync (aio_fildes (cb_of m e)) # l2 @ EUpcall (CallDone th (obj_of m e)) # l3
      \<and> done_calls (l1 @ l2) = map (obj_of m) xs" if "evs = xs @ e # ys" for xs e ys
    using synced_before_done [of m e "-1" env th xs ys] assms(7) that by auto
  ultimately show ?thesis using r by blast
qed

theorem synced_before_callback_witness:
  "\<exists>m' l. blockedPoll_round sample_env 10 True 3 sample_poll_machine = Some (True, m')
    \<and> log m' = l \<and> synced_files l = [6]"
  using synced_before_callback [OF sample_waiting sample_batch_ok, of 1 3 sample_env]
  by (fastforce simp: sample_poll_machine_def cb_of_def)

text \<open>C17: \<open>blockedPoll\<close> ends. Once the dumb write of \<open>deleteContext\<close> is among the completions, the
  call returns with \<open>pollLock\<close> released, whatever fuel beyond one round it is given; the
  completions in front of the dumb write got their callbacks, and their control blocks and that
  of the dumb write are back in the pool.\<close>

theorem blockedPoll_stops:
  assumes "env_GetDirectBufferAddress env cp (world m) = p" and "p \<noteq> NULL"
    and "ctls m p = Some c" and "pollLock c = MUnlocked"
    and "m1 = others (m\<lparr>ctls := (ctls m)(p \<mapsto> c\<lparr>pollLock := MLocked\<rparr>)\<rparr>)"
    and "waiting p c1 (evs @ d # rest) m1" and "pollLock c1 = MLocked"
    and "batch_ok m1 c1 evs" and "no_dumb m1 evs" and "grefs m1 (thisObject c1) = Some th"
    and "int (length (evs @ d # rest)) < queueSize c"
    and "iocbs m1 (ev_obj d) \<noteq> None" and "aio_fildes (cb_of m1 d) = dumbWriteHandler m1"
    and "ev_obj d \<noteq> NULL" and "int (length evs) < used c1"
  shows "\<exists>m' c'. blockedPoll env others (Suc n) cp uf m = Some (False, m')
    \<and> ctls m' p = Some c' \<and> pollLock c' = MUnlocked \<and> pool_inv c'
    \<and> pool_free c' = pool_free c1 @ map ev_obj evs @ [ev_obj d]
    \<and> done_calls (log m') = done_calls (log m1) @ map (obj_of m1) evs"
proof -
  from round_dumb [OF assms(6,8,9,10,11,12,13,14,15), of env uf] obtain m2 m3 c2 c' arr rs where
    r: "blockedPoll_round env p uf (queueSize c) m1 = Some (False, m3\<lparr>ctls := (ctls m3)(p \<mapsto> c')\<rparr>)"
    and m2: "m2 = m1\<lparr>ctls := (ctls m1)(p \<mapsto> c1\<lparr>events_arr := arr\<rparr>), rings := rs\<rparr>"
    and after: "after_batch env uf th (-1) p (c1\<lparr>events_arr := arr\<rparr>) evs m2 m3 c2"
    and c': "pool_inv c'" "pool_free c' = pool_free c1 @ map ev_obj evs @ [ev_obj d]"
      "pollLock c' = pollLock c1"
    by blast
  from after have log: "done_calls (log m3) = done_calls (log m1) @ map (obj_of m1) evs"
    by (simp add: after_batch_def m2 batch_log_views)
  let ?c = "c'\<lparr>pollLock := MUnlocked\<rparr>"
  have inv: "pool_inv ?c" "pool_free ?c = pool_free c'"
    using c'(1) by (simp_all add: pool_inv_def pool_free_def)
  have "blockedPoll env others (Suc n) cp uf m = Some (False, m3\<lparr>ctls := (ctls m3)(p \<mapsto> ?c)\<rparr>)"
    using assms(1-4,7) r [unfolded assms(5)] c'(3)
    by (simp add: blockedPoll_def getIOControl_ptr lock_pollLock_def unlock_pollLock_def)
  with inv log c' show ?thesis by auto
qed

lemma sample_stop_waiting:
  "waiting 10 ((sample_control 3)\<lparr>pollLock := MLocked\<rparr>)
    ([sample_event 20 512] @ sample_event 21 (-5) # [])
    (sample_stop_machine\<lparr>ctls := [10 \<mapsto> (sample_control 3)\<lparr>pollLock := MLocked\<rparr>]\<rparr>)"
proof -
  have "pool_inv ((sample_control 3)\<lparr>pollLock := MLocked\<rparr>)"
    using sample_pool_inv(4) by (simp add: pool_inv_def pool_free_def)
  then show ?thesis
    using sample_ready
    by (simp add: waiting_def sample_stop_machine_def sample_poll_machine_def ready_def classes_loaded_def)
qed

theorem blockedPoll_stops_witness:
  "\<exists>m' c'. blockedPoll sample_env id 1 10 True sample_stop_machine = Some (False, m')
    \<and> ctls m' 10 = Some c' \<and> pollLock c' = MUnlocked \<and> pool_free c' = [20, 21]
    \<and> done_calls (log m') = [77]"
proof -
  have free: "pool_free ((sample_control 3)\<lparr>pollLock := MLocked\<rparr>) = []"
    using sample_pool_free(4) by (simp add: pool_free_def)
  have views: "ref_of sample_stop_machine (sample_event 20 512) = 177"
    "obj_of sample_stop_machine (sample_event 20 512) = 77"
    "done_calls (log sample_stop_machine) = []"
    by (simp_all add: ref_of_def obj_of_def cb_of_def sample_stop_machine_def sample_poll_machine_def)
  let ?m = "sample_stop_machine\<lparr>ctls := [10 \<mapsto> (sample_control 3)\<lparr>pollLock := MLocked\<rparr>]\<rparr>"
  have "batch_ok ?m ((sample_control 3)\<lparr>pollLock := MLocked\<rparr>) [sample_event 20 512]"
    "no_dumb ?m [sample_event 20 512]"
    by (simp_all add: batch_ok_def no_dumb_def completes_def ref_of_def cb_of_def
      sample_stop_machine_def sample_poll_machine_def)
  moreover have "ctls sample_stop_machine = [10 \<mapsto> sample_control 3]"
    by (simp add: sample_stop_machine_def sample_poll_machine_def)
  ultimately show ?thesis
    using blockedPoll_stops [where env = sample_env and cp = 10 and m = sample_stop_machine and p = 10
        and c = "sample_control 3" and others = id and n = 0 and th = 1 and uf = True,
        OF _ _ _ _ _ sample_stop_waiting] free views
    by (fastforce simp: sample_stop_machine_def sample_poll_machine_def cb_of_def)
qed

text \<open>C19: a completion that the kernel's ring delivers twice is recognised. Handling the same event
  again, right after it was handled, calls nothing, returns nothing to the pool, deletes nothing
  and syncs nothing; it only turns the user-space reaping off for good.\<close>

theorem duplicate_event_ignored:
  assumes "ctls m p = Some c" and "pool_inv c" and "completes m (thisObject c) e"
    and "grefs m (thisObject c) = Some this" and "classes_loaded m"
    and "aio_fildes (cb_of m e) \<noteq> dumbWriteHandler m"
  shows "\<exists>lf1 m1 m2. blockedPoll_event env p uf e lf m = Some (True, lf1, m1)
    \<and> done_calls (log m1) = done_calls (log m) @ [obj_of m e]
    \<and> blockedPoll_event env p uf e lf1 m1 = Some (True, lf1, m2)
    \<and> ctls m2 = ctls m1 \<and> iocbs m2 = iocbs m1 \<and> grefs m2 = grefs m1 \<and> forceSysCall m2
    \<and> done_calls (log m2) = done_calls (log m1) \<and> deleted_refs (log m2) = deleted_refs (log m1)
    \<and> synced_files (log m2) = synced_files (log m1)"
proof -
  obtain w where first: "blockedPoll_event env p uf e lf m = Some (True, next_file uf lf m e,
      handled env uf this lf p (the (putIOCB c (ev_obj e))) e w m)"
    using blockedPoll_event_completion [OF assms] by blast
  let ?m1 = "handled env uf this lf p (the (putIOCB c (ev_obj e))) e w m"
  let ?lf = "next_file uf lf m e"
  let ?cb = "(cb_of m e)\<lparr>iocb_data := DNull\<rparr>"
  have "blockedPoll_event env p uf e ?lf ?m1 = Some (True, ?lf, ?m1\<lparr>forceSysCall := True,
      log := log ?m1 @ (if forceSysCall ?m1 then [] else [EStdout duplicate_warning])\<rparr>)"
    by (rule blockedPoll_event_duplicate [where cb = ?cb]) (use assms(6) in \<open>simp_all add: next_file_def\<close>)
  with first show ?thesis by simp
qed

theorem duplicate_event_ignored_witness:
  "\<exists>lf1 m1 m2. blockedPoll_event sample_env 10 True (sample_event 20 512) (-1) sample_poll_machine = Some (True, lf1, m1)
    \<and> blockedPoll_event sample_env 10 True (sample_event 20 512) lf1 m1 = Some (True, lf1, m2)
    \<and> ctls m2 = ctls m1 \<and> forceSysCall m2 \<and> done_calls (log m2) = [77]"
proof -
  have "completes sample_poll_machine 90 (sample_event 20 512)"
    and obj: "obj_of sample_poll_machine (sample_event 20 512) = 77"
    and log: "log sample_poll_machine = []"
    by (simp_all add: completes_def obj_of_def ref_of_def cb_of_def sample_poll_machine_def)
  with duplicate_event_ignored [where env = sample_env and m = sample_poll_machine and p = 10
      and c = "sample_control 3" and e = "sample_event 20 512" and this = 1 and uf = True and lf = "-1"]
    sample_waiting
  show ?thesis by (auto simp: waiting_def cb_of_def sample_poll_machine_def)
qed

text \<open>C30: an interrupted wait (\<open>EINTR\<close>) is retried and leaves no trace; any other failure of
  \<open>io_getevents\<close> ends the loop with an \<open>IOException\<close> and calls no callback.\<close>

theorem blockedPoll_reap_errors:
  assumes "reap_at env p 1 mx (others m) = Some (r, m1)" and "r < 0" and "ready m1"
  shows "blockedPoll_loop env others p uf mx (Suc n) m =
    (if r = - EINTR then blockedPoll_loop env others p uf mx n m1
     else Some (False, raised env IOException ''Error while calling io_getevents IO: '' (- r) m1))"
  using assms by (simp add: blockedPoll_round_def throwIOExceptionErrorNo_eq)

definition failing_env :: "int \<Rightarrow> nat env" where
  "failing_env r = sample_env\<lparr>env_getevents := (\<lambda>c mn mx t ring w. (r, [], ring, w))\<rparr>"

theorem blockedPoll_reap_errors_witness:
  "\<exists>m'. blockedPoll_loop (failing_env (-22)) id 10 True 3 1 (sample_machine 0 1) = Some (False, m')
    \<and> (\<exists>text. exc m' = Some (IOException text))"
proof -
  have "ring_count sample_ring = 0" by (simp add: ring_count_def sample_ring_def)
  then have reap: "reap_at (failing_env (-22)) 10 1 3 (id (sample_machine 0 1)) = Some (-22, (sample_machine 0 1)\<lparr>
      ctls := [10 \<mapsto> (sample_control 0)\<lparr>events_arr := replicate 3 (sample_event NULL 0)\<rparr>],
      rings := [9000 \<mapsto> sample_ring], world := 1\<rparr>)"
    by (simp add: reap_at_def failing_env_def ringio_get_events_eq [OF sample_ring_inv] needs_sys_call_def
      io_getevents_def zero_timeout_def)
  have "ready ((sample_machine 0 1)\<lparr>
      ctls := [10 \<mapsto> (sample_control 0)\<lparr>events_arr := replicate 3 (sample_event NULL 0)\<rparr>],
      rings := [9000 \<mapsto> sample_ring], world := 1\<rparr>)"
    by (auto simp: ready_def classes_loaded_def heap_ok_def unallocated_def uninit_ptr_def)
  from blockedPoll_reap_errors [where others = id, OF reap _ this, of True 0] show ?thesis
    by (simp add: EINTR_def raised_exc)
qed

subsection \<open>A batch taken by poll\<close>

definition poll_handled :: "'w env \<Rightarrow> addr \<Rightarrow> io_control \<Rightarrow> io_event \<Rightarrow> 'w \<Rightarrow> 'w machine \<Rightarrow> 'w machine" where
  "poll_handled env p c' e w m =
     m\<lparr>ctls := (ctls m)(p \<mapsto> c'), grefs := (grefs m)(ref_of m e := None),
       log := log m @ error_log env (obj_of m e) e @ [EDeleteGlobalRef (ref_of m e)], world := w\<rparr>"

lemma poll_handled_simps [simp]:
  "ctls (poll_handled env p c' e w m) = (ctls m)(p \<mapsto> c')"
  "iocbs (poll_handled env p c' e w m) = iocbs m"
  "grefs (poll_handled env p c' e w m) = (grefs m)(ref_of m e := None)"
  "log (poll_handled env p c' e w m) = log m @ error_log env (obj_of m e) e @ [EDeleteGlobalRef (ref_of m e)]"
  "classes_loaded (poll_handled env p c' e w m) = classes_loaded m"
  "exc (poll_handled env p c' e w m) = exc m" "rings (poll_handled env p c' e w m) = rings m"
  "cb_of (poll_handled env p c' e w m) e' = cb_of m e'"
  "ref_of (poll_handled env p c' e w m) e' = ref_of m e'"
  by (simp_all add: poll_handled_def classes_loaded_def cb_of_def ref_of_def)

lemma poll_handled_views:
  assumes "ref_of m e' \<noteq> ref_of m e"
  shows "obj_of (poll_handled env p c' e w m) e' = obj_of m e'"
    and "completes (poll_handled env p c' e w m) r e' = completes m r e'"
  using assms by (simp_all add: obj_of_def completes_def)

lemma poll_event_completion:
  assumes c: "ctls m p = Some c" and inv: "pool_inv c" and e: "completes m r e"
    and loaded: "classes_loaded m" and i: "i < length callbacks"
  shows "\<exists>w. poll_event env p i e callbacks m = Some (callbacks[i := obj_of m e],
    poll_handled env p (the (putIOCB c (ev_obj e))) e w m)"
proof -
  obtain c' where put: "putIOCB c (ev_obj e) = Some c'" using putIOCB_used [OF inv] by simp
  from e obtain cb where cb: "iocbs m (ev_obj e) = Some cb" by (auto simp: completes_def)
  from e cb have data: "iocb_data cb = DRef (ref_of m e)" by (auto simp: completes_def cb_of_def)
  from e obtain obj where obj: "grefs m (ref_of m e) = Some obj" by (auto simp: completes_def)
  show ?thesis
    using c put cb data obj loaded i
    by (cases m) (auto simp: poll_event_def Let_def machine_simps putIOCB_at_def poll_handled_def
      error_log_def obj_of_def classes_loaded_def SetObjectArrayElement_def)
qed

definition poll_log :: "'w env \<Rightarrow> 'w machine \<Rightarrow> io_event list \<Rightarrow> effect list" where
  "poll_log env m evs =
     concat (map (\<lambda>e. error_log env (obj_of m e) e @ [EDeleteGlobalRef (ref_of m e)]) evs)"

definition after_poll ::
  "'w env \<Rightarrow> addr \<Rightarrow> io_control \<Rightarrow> io_event list \<Rightarrow> 'w machine \<Rightarrow> 'w machine \<Rightarrow> io_control \<Rightarrow> bool" where
  "after_poll env p c evs m m' c' \<longleftrightarrow>
     ctls m' = (ctls m)(p \<mapsto> c') \<and> pool_inv c' \<and> pool_free c' = pool_free c @ map ev_obj evs
   \<and> used c' = used c - int (length evs) \<and> events_arr c' = events_arr c
   \<and> iocbs m' = iocbs m \<and> grefs m' = (grefs m) |` (- (ref_of m ` set evs))
   \<and> log m' = log m @ poll_log env m evs \<and> exc m' = exc m \<and> rings m' = rings m"

lemma poll_events_batch:
  assumes "ctls m p = Some c" and "pool_inv c" and "batch_ok m c evs" and "classes_loaded m"
    and "take (length evs) (drop i (events_arr c)) = evs" and "i + length evs \<le> length callbacks"
  shows "\<exists>m' c'. poll_events env p (length evs) i callbacks m = Some
      (take i callbacks @ map (obj_of m) evs @ drop (i + length evs) callbacks, m')
    \<and> after_poll env p c evs m m' c'"
  using assms
proof (induction evs arbitrary: m c i callbacks)
  case Nil
  then show ?case
    by (intro exI [of _ m] exI [of _ c]) (auto simp: after_poll_def poll_log_def fun_upd_idem)
next
  case (Cons e es)
  from Cons.prems(3) have e: "completes m (thisObject c) e" and busy: "0 < used c"
    by (auto simp: batch_ok_def)
  from e have q: "ev_obj e \<noteq> NULL" by (simp add: completes_def)
  obtain c1 where put: "putIOCB c (ev_obj e) = Some c1"
    using putIOCB_used [OF Cons.prems(2)] by blast
  note keep = putIOCB_keeps [OF Cons.prems(2) put]
  note pinv = putIOCB_inv [OF Cons.prems(2) busy q put]
  have room: "i < length callbacks" using Cons.prems(6) by simp
  obtain w where step: "poll_event env p i e callbacks m
      = Some (callbacks[i := obj_of m e], poll_handled env p c1 e w m)"
    using poll_event_completion [OF Cons.prems(1,2) e Cons.prems(4) room, of env] put by auto
  let ?m = "poll_handled env p c1 e w m" and ?cbs = "callbacks[i := obj_of m e]"
  have len: "i < length (events_arr c)" and ev: "events_arr c ! i = e"
    and rest: "take (length es) (drop (Suc i) (events_arr c)) = es"
    using take_drop_Cons [of "length es" i "events_arr c" e es] Cons.prems(5) by simp_all
  have other: "ref_of m e' \<noteq> ref_of m e" if "e' \<in> set es" for e'
    using batch_others [OF Cons.prems(3) that] by simp
  then have objs: "map (obj_of ?m) es = map (obj_of m) es" by (simp add: poll_handled_views)
  have refs: "map (ref_of ?m) es = map (ref_of m) es" by simp
  have "batch_ok ?m c1 es"
    unfolding batch_ok_def refs using Cons.prems(3) keep pinv other
    by (auto simp: batch_ok_def poll_handled_views)
  then have "\<exists>m' c'. poll_events env p (length es) (Suc i) ?cbs ?m = Some
      (take (Suc i) ?cbs @ map (obj_of ?m) es @ drop (Suc i + length es) ?cbs, m')
    \<and> after_poll env p c1 es ?m m' c'"
    using Cons.prems(4,6) pinv keep rest by (intro Cons.IH) simp_all
  then obtain m' c' where run: "poll_events env p (length es) (Suc i) ?cbs ?m = Some
      (take (Suc i) ?cbs @ map (obj_of ?m) es @ drop (Suc i + length es) ?cbs, m')"
    and after: "after_poll env p c1 es ?m m' c'" by blast
  have cbs: "take (Suc i) ?cbs @ map (obj_of ?m) es @ drop (Suc i + length es) ?cbs
      = take i callbacks @ map (obj_of m) (e # es) @ drop (i + length (e # es)) callbacks"
    using room objs by (simp add: take_Suc_conv_app_nth)
  have "poll_log env ?m es = poll_log env m es"
    using other by (simp add: poll_log_def poll_handled_views cong: map_cong)
  with after keep pinv have "after_poll env p c (e # es) m m' c'"
    by (auto simp: after_poll_def poll_log_def fun_eq_iff restrict_map_def)
  with run step Cons.prems(1) len ev show ?case unfolding cbs by auto
qed

lemma poll_batch:
  assumes "env_GetDirectBufferAddress env cp (world m) = p" and "p \<noteq> NULL"
    and "waiting p c evs m" and "batch_ok m c evs"
    and "min_nr \<le> int (length evs)" and "int (length evs) < max_nr" and "length evs \<le> length callbacks"
  shows "\<exists>m' c'. poll env cp callbacks min_nr max_nr m
      = Some (int (length evs), map (obj_of m) evs @ drop (length evs) callbacks, m')
    \<and> ctls m' p = Some c' \<and> pool_inv c' \<and> pool_free c' = pool_free c @ map ev_obj evs
    \<and> used c' = used c - int (length evs) \<and> grefs m' = (grefs m) |` (- (ref_of m ` set evs))
    \<and> log m' = log m @ poll_log env m evs \<and> exc m' = exc m"
proof -
  obtain arr ring where reap: "reap_at env p min_nr max_nr m = Some (int (length evs),
      m\<lparr>ctls := (ctls m)(p \<mapsto> c\<lparr>events_arr := arr\<rparr>), rings := (rings m)(ioContext c \<mapsto> ring)\<rparr>)"
    and arr: "take (length evs) arr = evs"
    using reap_at_waiting [OF assms(3,5), of max_nr env] assms(6) by auto
  let ?m = "m\<lparr>ctls := (ctls m)(p \<mapsto> c\<lparr>events_arr := arr\<rparr>), rings := (rings m)(ioContext c \<mapsto> ring)\<rparr>"
  from assms(3) have "pool_inv c" "classes_loaded m" by (simp_all add: waiting_def)
  then have "\<exists>m' c'. poll_events env p (length evs) 0 callbacks ?m = Some
      (take 0 callbacks @ map (obj_of ?m) evs @ drop (0 + length evs) callbacks, m')
    \<and> after_poll env p (c\<lparr>events_arr := arr\<rparr>) evs ?m m' c'"
    using assms(4,7) arr by (intro poll_events_batch) (simp_all add: classes_loaded_def)
  then obtain m' c' where run: "poll_events env p (length evs) 0 callbacks ?m
      = Some (map (obj_of m) evs @ drop (length evs) callbacks, m')"
    and after: "after_poll env p (c\<lparr>events_arr := arr\<rparr>) evs ?m m' c'" by auto
  have "poll_log env ?m evs = poll_log env m evs" by (simp add: poll_log_def)
  with run after reap show ?thesis
    using assms(1,2) by (auto simp: poll_def getIOControl_ptr after_poll_def)
qed

text \<open>C20: \<open>poll\<close> with completions in the ring and room for them in the array. It returns their number,
  stores the callbacks in the array in the order of completion from index 0 on, leaves the rest of
  the array alone, reports each failure to its callback and calls no \<open>done\<close>; every control block
  goes back to the pool and every global reference is deleted once.\<close>

theorem poll_delivers:
  assumes "env_GetDirectBufferAddress env cp (world m) = p" and "p \<noteq> NULL"
    and "waiting p c evs m" and "batch_ok m c evs"
    and "min_nr \<le> int (length evs)" and "int (length evs) < max_nr" and "length evs \<le> length callbacks"
  shows "\<exists>m' c'. poll env cp callbacks min_nr max_nr m
      = Some (int (length evs), map (obj_of m) evs @ drop (length evs) callbacks, m')
    \<and> ctls m' p = Some c' \<and> pool_inv c' \<and> pool_free c' = pool_free c @ map ev_obj evs
    \<and> used c' = used c - int (length evs) \<and> grefs m' = (grefs m) |` (- (ref_of m ` set evs))
    \<and> log m' = log m @ poll_log env m evs \<and> exc m' = exc m"
  using poll_batch [OF assms] .

theorem poll_delivers_witness:
  "\<exists>m' c'. poll sample_env 10 [0, 0, 9] 1 3 sample_poll_machine = Some (2, [77, 78, 9], m')
    \<and> ctls m' 10 = Some c' \<and> pool_free c' = [20, 21] \<and> grefs m' 177 = None"
  using poll_delivers [where env = sample_env and cp = 10 and p = 10 and min_nr = 1 and max_nr = 3
      and callbacks = "[0, 0, 9]", OF _ _ sample_waiting sample_batch_ok(1)]
  by (fastforce simp: obj_of_def ref_of_def cb_of_def sample_poll_machine_def)

text \<open>C32: \<open>poll\<close> has no such protection as \<open>blockedPoll\<close>: it does not clear the user data of a control
  block, so an event that is delivered twice makes it use a global reference that is already
  deleted, which JNI leaves undefined.\<close>

theorem poll_duplicate_undefined:
  assumes "ctls m p = Some c" and "pool_inv c" and "completes m r e" and "classes_loaded m"
    and "i < length callbacks"
  shows "\<exists>callbacks1 m1. poll_event env p i e callbacks m = Some (callbacks1, m1)
    \<and> iocb_data (cb_of m1 e) = DRef (ref_of m e) \<and> grefs m1 (ref_of m e) = None
    \<and> poll_event env p j e callbacks1 m1 = None"
proof -
  obtain w where first: "poll_event env p i e callbacks m = Some (callbacks[i := obj_of m e],
      poll_handled env p (the (putIOCB c (ev_obj e))) e w m)"
    using poll_event_completion [OF assms] by blast
  let ?m1 = "poll_handled env p (the (putIOCB c (ev_obj e))) e w m"
  from assms(3) obtain cb where cb: "iocbs m (ev_obj e) = Some cb" and data: "iocb_data cb = DRef (ref_of m e)"
    by (auto simp: completes_def cb_of_def)
  have "poll_event env p j e cbs ?m1 = None" for cbs
    using cb data by (simp add: poll_event_def deref_cookie_def Let_def)
  with first cb data show ?thesis by (simp add: cb_of_def)
qed

theorem poll_duplicate_undefined_witness:
  "\<exists>callbacks1 m1. poll_event sample_env 10 0 (sample_event 20 512) [0] sample_poll_machine = Some (callbacks1, m1)
    \<and> poll_event sample_env 10 1 (sample_event 20 512) callbacks1 m1 = None"
proof -
  have "completes sample_poll_machine 90 (sample_event 20 512)"
    by (simp add: completes_def ref_of_def cb_of_def sample_poll_machine_def)
  with poll_duplicate_undefined [where env = sample_env and m = sample_poll_machine and p = 10
      and c = "sample_control 3" and r = 90 and e = "sample_event 20 512" and i = 0 and j = 1 and callbacks = "[0]"]
    sample_waiting
  show ?thesis by (auto simp: waiting_def)
qed

end
