(* ===== verification/Context.thy ===== *)
theory Context
  imports Poll
begin

section \<open>Creating and deleting a context\<close>

text \<open>
  \<open>newContext\<close> allocates the control structure, its pool and its event array, and undoes what
  it did on each failure; \<open>deleteContext\<close> stops the poller with a write to the dumb file,
  waits for it, returns what is still pending and frees everything. The \<open>iocb_destroy\<close>
  family frees a pool up to a bound.
\<close>

definition sizeof_io_control :: int where "sizeof_io_control = 128"
definition sizeof_iocb :: u64 where "sizeof_iocb = 64"
definition sizeof_iocb_ptr :: u64 where "sizeof_iocb_ptr = 8"
definition sizeof_io_event :: u64 where "sizeof_io_event = 32"

text \<open>What \<open>malloc\<close> leaves in a block: pointers hold \<open>uninit_ptr\<close>, locks are not initialised.\<close>

definition uninit_iocb :: iocb where
  "uninit_iocb = \<lparr>aio_fildes = 0, aio_lio_opcode = 0, aio_buf = uninit_ptr, aio_nbytes = 0,
     aio_offset = 0, iocb_data = DMinusOne\<rparr>"

definition uninit_event :: io_event where
  "uninit_event = \<lparr>ev_obj = uninit_ptr, ev_res = 0\<rparr>"

definition uninit_control :: io_control where
  "uninit_control = \<lparr>ioContext = uninit_ptr, events_ptr = uninit_ptr, events_arr = [],
     thisObject = 0, iocbLock = MUninit, pollLock = MUninit, iocb_ptr = uninit_ptr,
     iocb_arr = [], queueSize = 0, iocbPut = 0, iocbGet = 0, used = 0\<rparr>"

definition with_control :: "addr \<Rightarrow> (io_control \<Rightarrow> io_control) \<Rightarrow> 'w machine \<Rightarrow> 'w machine option" where
  [machine_simps]: "with_control p f m = do { c \<leftarrow> ctls m p; Some (m\<lparr>ctls := (ctls m)(p \<mapsto> f c)\<rparr>) }"

definition io_queue_release :: "addr \<Rightarrow> 'w machine \<Rightarrow> 'w machine" where
  [machine_simps]: "io_queue_release ctx m =
     emit (EQueueRelease ctx) (m\<lparr>rings := (rings m)(ctx := None)\<rparr>)"

subsection \<open>The iocb\_destroy family\<close>

fun iocb_destroy_loop :: "addr \<Rightarrow> nat \<Rightarrow> nat \<Rightarrow> 'w machine \<Rightarrow> 'w machine option" where
  "iocb_destroy_loop theControl 0 i m = Some m"
| "iocb_destroy_loop theControl (Suc k) i m = do {
     c \<leftarrow> ctls m theControl;
     iocb \<leftarrow> arr_get (iocb_arr c) (int i);
     m \<leftarrow> free_iocb iocb m;
     iocb_destroy_loop theControl k (Suc i) m }"

definition iocb_destroy_members :: "addr \<Rightarrow> int \<Rightarrow> 'w machine \<Rightarrow> 'w machine option" where
  "iocb_destroy_members theControl upperBound m = iocb_destroy_loop theControl (nat upperBound) 0 m"

definition iocb_destroy_bounded :: "addr \<Rightarrow> int \<Rightarrow> 'w machine \<Rightarrow> 'w machine option" where
  "iocb_destroy_bounded theControl upperBound m = do {
     m \<leftarrow> iocb_destroy_members theControl upperBound m;
     c \<leftarrow> ctls m theControl;
     free_array (iocb_ptr c) m }"

definition iocb_destroy :: "addr \<Rightarrow> 'w machine \<Rightarrow> 'w machine option" where
  "iocb_destroy theControl m = do {
     c \<leftarrow> ctls m theControl;
     iocb_destroy_bounded theControl (queueSize c) m }"

subsection \<open>newContext\<close>

text \<open>The loop that allocates the control blocks: \<open>Some i\<close> is the index where \<open>malloc\<close> failed.\<close>

fun alloc_iocbs ::
  "'w env \<Rightarrow> addr \<Rightarrow> nat \<Rightarrow> nat \<Rightarrow> 'w machine \<Rightarrow> (nat option \<times> 'w machine) option" where
  "alloc_iocbs env theControl 0 i m = Some (None, m)"
| "alloc_iocbs env theControl (Suc k) i m = do {
     let (p, m) = malloc env sizeof_iocb m;
     c \<leftarrow> ctls m theControl;
     arr \<leftarrow> arr_set (iocb_arr c) (int i) p;
     let m = m\<lparr>ctls := (ctls m)(theControl \<mapsto> c\<lparr>iocb_arr := arr\<rparr>)\<rparr>;
     if p = NULL then Some (Some i, m)
     else alloc_iocbs env theControl k (Suc i) (m\<lparr>iocbs := (iocbs m)(p \<mapsto> uninit_iocb)\<rparr>) }"

text \<open>The part after the control blocks: locks, event array, counters, the handle for Java.\<close>

definition destroy_and_fail :: "addr \<Rightarrow> 'w machine \<Rightarrow> 'w machine option" where
  "destroy_and_fail theControl m = do {
     m \<leftarrow> iocb_destroy theControl m;
     c \<leftarrow> ctls m theControl;
     free_ctl theControl (io_queue_release (ioContext c) m) }"

definition newContext_finish ::
  "'w env \<Rightarrow> jobject \<Rightarrow> addr \<Rightarrow> int \<Rightarrow> 'w machine \<Rightarrow> (jobject \<times> 'w machine) option" where
  "newContext_finish env thisObj theControl qsize m = do {
     m \<leftarrow> with_control theControl (\<lambda>c. c\<lparr>queueSize := qsize\<rparr>) m;
     let (res, w) = env_mutex_init env (world m);
     let m = m\<lparr>world := w\<rparr>;
     if res \<noteq> 0 then do {
       m \<leftarrow> destroy_and_fail theControl m;
       m \<leftarrow> throwRuntimeExceptionErrorNo env ''Can't initialize mutext:'' res m;
       Some (0, m) }
     else do {
       m \<leftarrow> with_control theControl (\<lambda>c. c\<lparr>iocbLock := MUnlocked\<rparr>) m;
       let (res, w) = env_mutex_init env (world m);
       let m = m\<lparr>world := w\<rparr>;
       if res \<noteq> 0 then do {
         m \<leftarrow> destroy_and_fail theControl m;
         m \<leftarrow> throwRuntimeExceptionErrorNo env ''Can't initialize mutext:'' res m;
         Some (0, m) }
       else do {
         m \<leftarrow> with_control theControl (\<lambda>c. c\<lparr>pollLock := MUnlocked\<rparr>) m;
         let (p, m) = malloc env (sizeof_io_event * size_t qsize) m;
         m \<leftarrow> with_control theControl (\<lambda>c. c\<lparr>events_ptr := p\<rparr>) m;
         if p = NULL then do {
           m \<leftarrow> destroy_and_fail theControl m;
           m \<leftarrow> throwRuntimeExceptionErrorNo env
             ''Can't initialize mutext (not enough memory for the events member): '' res m;
           Some (0, m) }
         else do {
           let m = m\<lparr>arrays := (arrays m)(p \<mapsto> sizeof_io_event * size_t qsize)\<rparr>;
           m \<leftarrow> with_control theControl (\<lambda>c. c\<lparr>events_arr := replicate (nat qsize) uninit_event\<rparr>) m;
           m \<leftarrow> with_control theControl (\<lambda>c. c\<lparr>iocbPut := 0, iocbGet := 0, used := 0\<rparr>) m;
           let (h, m) = NewGlobalRef env thisObj m;
           m \<leftarrow> with_control theControl (\<lambda>c. c\<lparr>thisObject := h\<rparr>) m;
           Some (NewDirectByteBuffer env theControl sizeof_io_control m) } } } }"

definition newContext ::
  "'w env \<Rightarrow> jobject \<Rightarrow> int \<Rightarrow> 'w machine \<Rightarrow> (jobject \<times> 'w machine) option" where
  "newContext env thisObj qsize m = do {
     let (theControl, m) = malloc env (word_of_int sizeof_io_control) m;
     if theControl = NULL then do {
       m \<leftarrow> throwOutOfMemoryError env m;
       Some (0, m) }
     else do {
       let m = m\<lparr>ctls := (ctls m)(theControl \<mapsto> uninit_control)\<rparr>;
       let (res, ctx, ring, w) = env_io_queue_init env qsize (world m);
       let m = m\<lparr>world := w\<rparr>;
       m \<leftarrow> with_control theControl (\<lambda>c. c\<lparr>ioContext := ctx\<rparr>) m;
       if res \<noteq> 0 then do {
         m \<leftarrow> free_ctl theControl (io_queue_release ctx m);
         m \<leftarrow> throwRuntimeExceptionErrorNo env ''Cannot initialize queue:'' res m;
         Some (0, m) }
       else do {
         let m = m\<lparr>rings := (rings m)(ctx \<mapsto> ring)\<rparr>;
         let (p, m) = malloc env (sizeof_iocb_ptr * size_t qsize) m;
         m \<leftarrow> with_control theControl (\<lambda>c. c\<lparr>iocb_ptr := p\<rparr>) m;
         if p = NULL then do {
           m \<leftarrow> free_ctl theControl (io_queue_release ctx m);
           m \<leftarrow> throwOutOfMemoryError env m;
           Some (0, m) }
         else do {
           let m = m\<lparr>arrays := (arrays m)(p \<mapsto> sizeof_iocb_ptr * size_t qsize)\<rparr>;
           m \<leftarrow> with_control theControl (\<lambda>c. c\<lparr>iocb_arr := replicate (nat qsize) uninit_ptr\<rparr>) m;
           (failed, m) \<leftarrow> alloc_iocbs env theControl (nat qsize) 0 m;
           case failed of
             Some i \<Rightarrow> do {
               m \<leftarrow> iocb_destroy_bounded theControl (int i) m;
               m \<leftarrow> free_ctl theControl (io_queue_release ctx m);
               m \<leftarrow> throwOutOfMemoryError env m;
               Some (0, m) }
           | None \<Rightarrow> newContext_finish env thisObj theControl qsize m } } } }"

subsection \<open>deleteContext\<close>

text \<open>The control blocks of the events that were still in the queue go back to the pool.\<close>

fun return_events :: "addr \<Rightarrow> nat \<Rightarrow> nat \<Rightarrow> 'w machine \<Rightarrow> 'w machine option" where
  "return_events theControl 0 i m = Some m"
| "return_events theControl (Suc k) i m = do {
     c \<leftarrow> ctls m theControl;
     event \<leftarrow> arr_get (events_arr c) (int i);
     m \<leftarrow> putIOCB_at theControl (ev_obj event) m;
     return_events theControl k (Suc i) m }"

text \<open>
  \<open>others\<close> is what the rest of the process does while the call waits for \<open>pollLock\<close>: the
  poller handles the dumb write and leaves. If the lock is still taken afterwards the call
  has no result: it would wait for ever.
\<close>

definition deleteContext ::
  "'w env \<Rightarrow> ('w machine \<Rightarrow> 'w machine) \<Rightarrow> jobject \<Rightarrow> 'w machine \<Rightarrow> 'w machine option" where
  "deleteContext env others contextPointer m = do {
     (theControl, m) \<leftarrow> getIOControl env contextPointer m;
     if theControl = NULL then Some m else do {
       (iocb, m) \<leftarrow> getIOCB_at theControl m;
       if iocb = NULL then throwIOException ''Not enough space in libaio queue'' m
       else do {
         cb \<leftarrow> iocbs m iocb;
         let cb = env_prep_pwrite env cb (dumbWriteHandler m) NULL 0 0;
         let m = m\<lparr>iocbs := (iocbs m)(iocb \<mapsto> cb\<lparr>iocb_data := DMinusOne\<rparr>)\<rparr>;
         (submitted, m) \<leftarrow> submit env theControl iocb m;
         if \<not> submitted then Some m
         else do {
           let m = others m;
           m \<leftarrow> lock_pollLock theControl m;
           m \<leftarrow> unlock_pollLock theControl m;
           (result, m) \<leftarrow> reap_at env theControl 0 1 m;
           m \<leftarrow> return_events theControl (nat result) 0 m;
           c \<leftarrow> ctls m theControl;
           let m = io_queue_release (ioContext c) m;
           l1 \<leftarrow> mutex_destroy (pollLock c);
           l2 \<leftarrow> mutex_destroy (iocbLock c);
           m \<leftarrow> with_control theControl (\<lambda>c. c\<lparr>pollLock := l1, iocbLock := l2\<rparr>) m;
           m \<leftarrow> iocb_destroy theControl m;
           m \<leftarrow> DeleteGlobalRef (thisObject c) m;
           m \<leftarrow> free_array (events_ptr c) m;
           free_ctl theControl m } } } }"

subsection \<open>A context under construction\<close>

text \<open>\<open>k\<close> control blocks at the addresses from \<open>q\<close> on, and the same without them.\<close>

definition live_from :: "addr \<Rightarrow> nat \<Rightarrow> (addr \<rightharpoonup> iocb) \<Rightarrow> (addr \<rightharpoonup> iocb)" where
  "live_from q k f = (\<lambda>a. if q \<le> a \<and> a < q + k then Some uninit_iocb else f a)"

definition dead_from :: "addr \<Rightarrow> nat \<Rightarrow> (addr \<rightharpoonup> iocb) \<Rightarrow> (addr \<rightharpoonup> iocb)" where
  "dead_from q k f = (\<lambda>a. if q \<le> a \<and> a < q + k then None else f a)"

lemma live_from_0 [simp]: "live_from q 0 f = f"
  by (auto simp: live_from_def fun_eq_iff)

lemma live_from_Suc: "(live_from q k f)(q + k \<mapsto> uninit_iocb) = live_from q (Suc k) f"
  by (auto simp: live_from_def fun_eq_iff)

lemma live_from_Cons: "live_from (Suc q) k (f(q \<mapsto> uninit_iocb)) = live_from q (Suc k) f"
  by (auto simp: live_from_def fun_eq_iff)

lemma dead_from_0 [simp]: "dead_from q 0 f = f"
  by (auto simp: dead_from_def fun_eq_iff)

lemma dead_from_Cons: "dead_from (Suc q) k (f(q := None)) = dead_from q (Suc k) f"
  by (auto simp: dead_from_def fun_eq_iff)

lemma dead_live:
  "(\<And>a. q \<le> a \<Longrightarrow> f a = None) \<Longrightarrow> dead_from q k (live_from q k f) = f"
  by (auto simp: dead_from_def live_from_def fun_eq_iff)

text \<open>Some allocation, kernel queue or mutex that \<open>newContext\<close> asks for is refused.\<close>

definition resource_refused :: "'w env \<Rightarrow> nat \<Rightarrow> bool" where
  "resource_refused env k \<longleftrightarrow> (\<exists>n w. \<not> fst (env_malloc env n w))
     \<or> (\<exists>w. fst (env_io_queue_init env (int k) w) \<noteq> 0) \<or> (\<exists>w. fst (env_mutex_init env w) \<noteq> 0)"

lemma resource_refusedI:
  "env_malloc env n w = (False, w') \<Longrightarrow> resource_refused env k"
  "env_io_queue_init env (int k) w = (res, z) \<Longrightarrow> res \<noteq> 0 \<Longrightarrow> resource_refused env k"
  "env_mutex_init env w = (res, w') \<Longrightarrow> res \<noteq> 0 \<Longrightarrow> resource_refused env k"
  unfolding resource_refused_def by (metis fst_conv)+

text \<open>The allocation loop: fresh blocks in order, or the index where memory ran out.\<close>

lemma alloc_iocbs_cases:
  assumes "ctls m p = Some c" and "i + k \<le> length (iocb_arr c)" and "next_addr m \<noteq> NULL"
  shows "\<exists>r j w arr. alloc_iocbs env p k i m = Some (r,
      m\<lparr>ctls := (ctls m)(p \<mapsto> c\<lparr>iocb_arr := arr\<rparr>), iocbs := live_from (next_addr m) j (iocbs m),
        next_addr := next_addr m + j, world := w\<rparr>)
    \<and> r = (if j = k then None else Some (i + j)) \<and> j \<le> k \<and> length arr = length (iocb_arr c)
    \<and> take i arr = take i (iocb_arr c) \<and> take j (drop i arr) = [next_addr m..<next_addr m + j]
    \<and> (j = k \<or> (\<forall>k. resource_refused env k))"
  using assms
proof (induction k arbitrary: i m c)
  case 0
  then show ?case
    by (intro exI [of _ "None"] exI [of _ 0] exI [of _ "world m"] exI [of _ "iocb_arr c"])
      (simp add: fun_upd_idem)
next
  case (Suc k)
  obtain ok w where mal: "env_malloc env sizeof_iocb (world m) = (ok, w)" by fastforce
  show ?case
  proof (cases ok)
    case False
    with mal have "\<forall>k. resource_refused env k" by (auto intro: resource_refusedI)
    with False Suc.prems mal show ?thesis
      by (intro exI [of _ "Some i"] exI [of _ 0] exI [of _ w] exI [of _ "(iocb_arr c)[i := NULL]"])
        (cases m, auto simp: malloc_def fun_eq_iff)
  next
    case True
    let ?n = "next_addr m"
    let ?c = "c\<lparr>iocb_arr := (iocb_arr c)[i := ?n]\<rparr>"
    let ?m = "m\<lparr>ctls := (ctls m)(p \<mapsto> ?c), iocbs := (iocbs m)(?n \<mapsto> uninit_iocb),
      next_addr := Suc ?n, world := w\<rparr>"
    have step: "alloc_iocbs env p (Suc k) i m = alloc_iocbs env p k (Suc i) ?m"
      using Suc.prems True mal by (cases m) (simp add: malloc_def)
    have "\<exists>r j w' arr. alloc_iocbs env p k (Suc i) ?m = Some (r,
        ?m\<lparr>ctls := (ctls ?m)(p \<mapsto> ?c\<lparr>iocb_arr := arr\<rparr>),
          iocbs := live_from (next_addr ?m) j (iocbs ?m), next_addr := next_addr ?m + j, world := w'\<rparr>)
      \<and> r = (if j = k then None else Some (Suc i + j)) \<and> j \<le> k \<and> length arr = length (iocb_arr ?c)
      \<and> take (Suc i) arr = take (Suc i) (iocb_arr ?c)
      \<and> take j (drop (Suc i) arr) = [next_addr ?m..<next_addr ?m + j]
      \<and> (j = k \<or> (\<forall>k. resource_refused env k))"
      by (rule Suc.IH) (use Suc.prems in simp_all)
    then obtain r j w' arr where
      run: "alloc_iocbs env p k (Suc i) ?m = Some (r,
        ?m\<lparr>ctls := (ctls ?m)(p \<mapsto> ?c\<lparr>iocb_arr := arr\<rparr>),
          iocbs := live_from (next_addr ?m) j (iocbs ?m), next_addr := next_addr ?m + j, world := w'\<rparr>)"
      and r: "r = (if j = k then None else Some (Suc i + j))" "j \<le> k" "length arr = length (iocb_arr ?c)"
      and pre: "take (Suc i) arr = take (Suc i) (iocb_arr ?c)"
      and suf: "take j (drop (Suc i) arr) = [next_addr ?m..<next_addr ?m + j]"
      and all: "j = k \<or> (\<forall>k. resource_refused env k)"
      by blast
    have at: "i < length arr" "arr ! i = ?n"
      using arg_cong [OF pre, of "\<lambda>xs. xs ! i"] Suc.prems(2) r(3) by simp_all
    have "take i arr = take i (iocb_arr c)"
      using arg_cong [OF pre, of "take i"] by (simp add: min_def)
    moreover have "take (Suc j) (drop i arr) = [?n..<?n + Suc j]"
      using suf at by (simp add: Cons_nth_drop_Suc [symmetric] upt_rec)
    ultimately show ?thesis
      unfolding step run using r all
      by (intro exI [of _ r] exI [of _ "Suc j"] exI [of _ w'] exI [of _ arr])
        (cases m, auto simp: live_from_Cons fun_eq_iff)
  qed
qed

text \<open>The loop that frees the blocks named by a stretch of the pool array: it needs every one of them
  live and named once; a block named twice is freed twice, which is undefined.\<close>

lemma iocb_destroy_loop_eq:
  assumes "ctls m p = Some c" and "i + k \<le> length (iocb_arr c)"
    and "NULL \<notin> set (take k (drop i (iocb_arr c)))"
  shows "iocb_destroy_loop p k i m =
    (if distinct (take k (drop i (iocb_arr c))) \<and> set (take k (drop i (iocb_arr c))) \<subseteq> dom (iocbs m)
     then Some (m\<lparr>iocbs := iocbs m |` (- set (take k (drop i (iocb_arr c))))\<rparr>) else None)"
  using assms
proof (induction k arbitrary: i m)
  case 0
  then show ?case by (cases m) (simp add: restrict_map_def)
next
  case (Suc k)
  let ?q = "iocb_arr c ! i" and ?L = "take k (drop (Suc i) (iocb_arr c))"
  have L: "take (Suc k) (drop i (iocb_arr c)) = ?q # ?L" and i: "i < length (iocb_arr c)"
    using Suc.prems(2) by (simp_all add: Cons_nth_drop_Suc [symmetric])
  let ?m = "m\<lparr>iocbs := (iocbs m)(?q := None)\<rparr>"
  have "iocb_destroy_loop p k (Suc i) ?m =
    (if distinct ?L \<and> set ?L \<subseteq> dom (iocbs ?m)
     then Some (?m\<lparr>iocbs := iocbs ?m |` (- set ?L)\<rparr>) else None)"
    by (rule Suc.IH) (use Suc.prems L in simp_all)
  moreover have "iocbs ?m |` (- set ?L) = iocbs m |` (- set (?q # ?L))"
    by (auto simp: restrict_map_def fun_eq_iff)
  moreover have "set ?L \<subseteq> dom (iocbs ?m) \<longleftrightarrow> ?q \<notin> set ?L \<and> set ?L \<subseteq> dom (iocbs m)" by auto
  moreover have "?q \<noteq> NULL" using Suc.prems(3) L by simp
  ultimately show ?case
    using Suc.prems(1) i unfolding L by (auto simp: free_iocb_def)
qed

lemma restrict_fresh: "f |` (- set [q..<q + k]) = dead_from q k f"
  by (auto simp: restrict_map_def dead_from_def fun_eq_iff)

lemma iocb_destroy_loop_fresh:
  assumes "ctls m p = Some c" and "take k (drop i (iocb_arr c)) = [q..<q + k]"
    and "i + k \<le> length (iocb_arr c)" and "q \<noteq> NULL" and "\<And>a. q \<le> a \<Longrightarrow> a < q + k \<Longrightarrow> iocbs m a \<noteq> None"
  shows "iocb_destroy_loop p k i m = Some (m\<lparr>iocbs := dead_from q k (iocbs m)\<rparr>)"
proof -
  have "set [q..<q + k] \<subseteq> dom (iocbs m)" using assms(5) by auto
  with iocb_destroy_loop_eq [OF assms(1,3)] assms(2,4) show ?thesis
    by (simp add: restrict_fresh [symmetric] del: upt_Suc)
qed

lemma iocb_destroy_bounded_fresh:
  assumes "ctls m p = Some c" and "take k (iocb_arr c) = [q..<q + k]" and "k \<le> length (iocb_arr c)"
    and "q \<noteq> NULL" and "\<And>a. q \<le> a \<Longrightarrow> a < q + k \<Longrightarrow> iocbs m a \<noteq> None"
    and "iocb_ptr c \<noteq> NULL" and "arrays m (iocb_ptr c) \<noteq> None"
  shows "iocb_destroy_bounded p (int k) m =
    Some (m\<lparr>iocbs := dead_from q k (iocbs m), arrays := (arrays m)(iocb_ptr c := None)\<rparr>)"
proof -
  have "iocb_destroy_loop p k 0 m = Some (m\<lparr>iocbs := dead_from q k (iocbs m)\<rparr>)"
    by (rule iocb_destroy_loop_fresh [OF assms(1)]) (use assms in simp_all)
  with assms show ?thesis
    by (simp add: iocb_destroy_bounded_def iocb_destroy_members_def free_array_def)
qed

text \<open>The machine with a half-built context: its control structure, pool array, \<open>k\<close> control blocks
  and kernel context, at the addresses that \<open>malloc\<close> gives in this order.\<close>

definition built ::
  "'w machine \<Rightarrow> io_control \<Rightarrow> nat \<Rightarrow> u64 \<Rightarrow> addr \<Rightarrow> aio_ring \<Rightarrow> addr \<Rightarrow> 'w \<Rightarrow> 'w machine" where
  "built m c k sz ctx ring n w =
     m\<lparr>ctls := (ctls m)(next_addr m \<mapsto> c), iocbs := live_from (next_addr m + 2) k (iocbs m),
       arrays := (arrays m)(Suc (next_addr m) \<mapsto> sz), rings := (rings m)(ctx \<mapsto> ring),
       next_addr := n, world := w\<rparr>"

text \<open>And with everything undone.\<close>

definition undone :: "'w machine \<Rightarrow> addr \<Rightarrow> addr \<Rightarrow> 'w \<Rightarrow> 'w machine" where
  "undone m ctx n w = m\<lparr>log := log m @ [EQueueRelease ctx], next_addr := n, world := w\<rparr>"

lemma built_simps [simp]:
  "ctls (built m c k sz ctx ring n w) (next_addr m) = Some c" "world (built m c k sz ctx ring n w) = w"
  "next_addr (built m c k sz ctx ring n w) = n"
  by (simp_all add: built_def)

lemma with_control_built [simp]:
  "with_control (next_addr m) f (built m c k sz ctx ring n w) = Some (built m (f c) k sz ctx ring n w)"
  by (simp add: with_control_def built_def)

lemma built_world [simp]:
  "(built m c k sz ctx ring n w)\<lparr>world := w'\<rparr> = built m c k sz ctx ring n w'"
  by (simp add: built_def)

lemma heap_ok_freshD:
  assumes "heap_ok m" and "next_addr m \<le> a"
  shows "ctls m a = None" "iocbs m a = None" "blocks m a = None" "arrays m a = None" "cstrings m a = None"
  using assms by (auto simp: heap_ok_def unallocated_def)

lemma undo_built:
  assumes "heap_ok m" and "rings m ctx = None" and "take k (iocb_arr c) = [next_addr m + 2..<next_addr m + 2 + k]"
    and "k \<le> length (iocb_arr c)" and "iocb_ptr c = Suc (next_addr m)"
  shows "\<exists>m1. iocb_destroy_bounded (next_addr m) (int k) (built m c k sz ctx ring n w) = Some m1
    \<and> ctls m1 (next_addr m) = Some c
    \<and> free_ctl (next_addr m) (io_queue_release ctx m1) = Some (undone m ctx n w)"
proof -
  let ?m = "built m c k sz ctx ring n w" and ?p = "next_addr m"
  note fresh = heap_ok_freshD [OF assms(1)]
  let ?m1 = "?m\<lparr>iocbs := dead_from (?p + 2) k (iocbs ?m), arrays := (arrays ?m)(iocb_ptr c := None)\<rparr>"
  have 1: "iocb_destroy_bounded ?p (int k) ?m = Some ?m1"
    by (rule iocb_destroy_bounded_fresh [OF _ assms(3,4)])
      (use assms(5) in \<open>simp_all add: built_def live_from_def\<close>)
  have "dead_from (?p + 2) k (iocbs ?m) = iocbs m"
    unfolding built_def by (simp add: dead_live fresh)
  moreover have "(arrays ?m)(iocb_ptr c := None) = arrays m"
    using assms(5) fresh [of "Suc ?p"] by (simp add: built_def fun_upd_idem)
  ultimately have m1: "?m1 = ?m\<lparr>iocbs := iocbs m, arrays := arrays m\<rparr>" by simp
  have "?p \<noteq> NULL" using heap_ok_next [OF assms(1)] by simp
  then have "free_ctl ?p (io_queue_release ctx ?m1) = Some (undone m ctx n w)"
    unfolding m1 using assms(2) fresh [of ?p]
    by (cases m) (simp add: free_ctl_def io_queue_release_def emit_def built_def undone_def fun_upd_idem)
  with 1 show ?thesis by (auto simp: built_def)
qed

lemma undone_ready: "ready m \<Longrightarrow> next_addr m \<le> n \<Longrightarrow> ready (undone m ctx n w)"
  by (auto simp: ready_def heap_ok_def unallocated_def undone_def classes_loaded_def)

text \<open>The same blocks, references and kernel contexts as before.\<close>

definition same_memory :: "'w machine \<Rightarrow> 'w machine \<Rightarrow> bool" where
  "same_memory m m' \<longleftrightarrow> ctls m' = ctls m \<and> iocbs m' = iocbs m \<and> blocks m' = blocks m
     \<and> arrays m' = arrays m \<and> cstrings m' = cstrings m \<and> rings m' = rings m \<and> grefs m' = grefs m"

lemma same_memory_undone [simp]: "same_memory m (undone m ctx n w)"
  by (simp add: same_memory_def undone_def)

lemma same_memory_raised: "same_memory m m1 \<Longrightarrow> same_memory m (raised env mk msg e m1)"
  by (simp add: same_memory_def)

text \<open>A call that failed: null, an exception pending, nothing left behind.\<close>

definition failed_cleanly :: "'w machine \<Rightarrow> jobject \<Rightarrow> 'w machine \<Rightarrow> bool" where
  "failed_cleanly m r m' \<longleftrightarrow> r = 0 \<and> exc m' \<noteq> None \<and> same_memory m m' \<and> ready m'"

definition oom_class :: "'w env \<Rightarrow> bool" where
  "oom_class env \<longleftrightarrow> (\<forall>w. fst (env_FindClass env ''java/lang/OutOfMemoryError'' w) \<noteq> 0)"

lemma throwOutOfMemoryError_clean:
  assumes "oom_class env" and "ready m1" and "same_memory m m1"
  shows "\<exists>m'. throwOutOfMemoryError env m1 = Some m' \<and> failed_cleanly m 0 m'"
proof -
  obtain cls w where f: "env_FindClass env ''java/lang/OutOfMemoryError'' (world m1) = (cls, w)"
    by fastforce
  with assms(1) have "cls \<noteq> 0" by (metis oom_class_def fst_conv)
  with assms f show ?thesis
    by (auto simp: throwOutOfMemoryError_def ThrowNew_def failed_cleanly_def same_memory_def)
qed

lemma throwRuntimeException_clean:
  assumes "ready m1" and "same_memory m m1"
  shows "\<exists>m'. throwRuntimeExceptionErrorNo env msg e m1 = Some m' \<and> failed_cleanly m 0 m'"
  using assms raised_exc [of env RuntimeException msg e m1]
  by (auto simp: throwRuntimeExceptionErrorNo_eq failed_cleanly_def raised_ready same_memory_raised)

lemma destroy_and_fail_built:
  assumes "heap_ok m" and "rings m ctx = None" and "iocb_arr c = [next_addr m + 2..<next_addr m + 2 + k]"
    and "iocb_ptr c = Suc (next_addr m)" and "queueSize c = int k" and "ioContext c = ctx"
  shows "destroy_and_fail (next_addr m) (built m c k sz ctx ring n w) = Some (undone m ctx n w)"
proof -
  have "take k (iocb_arr c) = [next_addr m + 2..<next_addr m + 2 + k]" "k \<le> length (iocb_arr c)"
    by (simp_all add: assms(3) del: upt_Suc)
  from undo_built [OF assms(1,2) this assms(4), of sz ring n w] assms(5,6) show ?thesis
    by (auto simp: destroy_and_fail_def iocb_destroy_def)
qed

text \<open>The outcome when every resource was granted: one control structure with a full pool of \<open>k\<close> fresh
  control blocks, room for \<open>k\<close> events, both locks open, the reference to the Java object that
  \<open>NewGlobalRef\<close> gave, which may be null, and the buffer for Java, which may be null too.\<close>

definition new_context :: "'w env \<Rightarrow> jobject \<Rightarrow> nat \<Rightarrow> 'w machine \<Rightarrow> jobject \<Rightarrow> 'w machine \<Rightarrow> bool" where
  "new_context env obj k m r m' \<longleftrightarrow> (let p = next_addr m in \<exists>c w1 w2 oom ring.
     ctls m' = (ctls m)(p \<mapsto> c) \<and> pool_inv c \<and> used c = 0 \<and> iocbGet c = 0 \<and> queueSize c = int k
   \<and> iocb_arr c = [p + 2..<p + 2 + k] \<and> pool_free c = [p + 2..<p + 2 + k]
   \<and> pollLock c = MUnlocked \<and> length (events_arr c) = k
   \<and> iocb_ptr c = Suc p \<and> events_ptr c = p + 2 + k
   \<and> iocbs m' = live_from (p + 2) k (iocbs m)
   \<and> arrays m' = (arrays m)(Suc p \<mapsto> sizeof_iocb_ptr * size_t (int k),
        p + 2 + k \<mapsto> sizeof_io_event * size_t (int k))
   \<and> rings m' = (rings m)(ioContext c \<mapsto> ring) \<and> rings m (ioContext c) = None
   \<and> thisObject c = fst (env_NewGlobalRef env obj w1)
   \<and> grefs m' = (if thisObject c = 0 then grefs m else (grefs m)(thisObject c \<mapsto> obj))
   \<and> env_NewDirectByteBuffer env p sizeof_io_control w2 = (r, oom, world m')
   \<and> exc m' = (if r = 0 \<and> oom then Some OutOfMemoryError else exc m) \<and> log m' = log m \<and> blocks m' = blocks m \<and> cstrings m' = cstrings m
   \<and> forceSysCall m' = forceSysCall m \<and> dumbWriteHandler m' = dumbWriteHandler m \<and> ready m')"

lemma full_pool:
  assumes "iocb_arr c = [q..<q + k]" and "queueSize c = int k" and "0 < k" and "q \<noteq> NULL"
    and "iocbPut c = 0" and "iocbGet c = 0" and "used c = 0" and "iocbLock c = MUnlocked"
  shows "pool_inv c \<and> pool_free c = [q..<q + k]"
proof -
  have "pool_free c = [q..<q + k]"
    using assms ring_slice_whole [of "[q..<q + k]"] by (simp add: pool_free_def)
  with assms show ?thesis by (simp add: pool_inv_def)
qed

lemma newContext_finish_cases:
  assumes ready: "ready m" and ctx: "rings m ctx = None"
    and arr: "iocb_arr c = [next_addr m + 2..<next_addr m + 2 + k]"
    and ptr: "iocb_ptr c = Suc (next_addr m)" "ioContext c = ctx" and k: "0 < k"
  shows "\<exists>r m'. newContext_finish env obj (next_addr m) (int k)
      (built m c k (sizeof_iocb_ptr * size_t (int k)) ctx ring (next_addr m + 2 + k) w) = Some (r, m')
    \<and> (failed_cleanly m r m' \<and> resource_refused env k \<or> new_context env obj k m r m')"
proof -
  let ?n = "next_addr m + 2 + k" and ?sz = "sizeof_iocb_ptr * size_t (int k)"
  from ready have heap: "heap_ok m" by (simp add: ready_def)
  have undo: "destroy_and_fail (next_addr m) (built m c1 k ?sz ctx ring ?n w1) = Some (undone m ctx ?n w1)"
    if "iocb_arr c1 = iocb_arr c" "iocb_ptr c1 = iocb_ptr c" "ioContext c1 = ioContext c"
      "queueSize c1 = int k" for c1 w1
    using that arr ptr by (intro destroy_and_fail_built [OF heap ctx]) simp_all
  have fails: "\<exists>m'. throwRuntimeExceptionErrorNo env msg e (undone m ctx ?n w1) = Some m'
      \<and> failed_cleanly m 0 m'" for msg e w1
    using ready by (intro throwRuntimeException_clean undone_ready) simp_all
  obtain r1 w1 where i1: "env_mutex_init env w = (r1, w1)" by fastforce
  show ?thesis
  proof (cases "r1 = 0")
    case False
    with i1 undo fails [of "''Can't initialize mutext:''" r1 w1] resource_refusedI(3) [OF i1] show ?thesis
      by (auto simp: newContext_finish_def)
  next
    case True
    obtain r2 w2 where i2: "env_mutex_init env w1 = (r2, w2)" by fastforce
    show ?thesis
    proof (cases "r2 = 0")
      case False
      with True i1 i2 undo fails [of "''Can't initialize mutext:''" r2 w2] resource_refusedI(3) [OF i2]
      show ?thesis
        by (auto simp: newContext_finish_def)
    next
      case True2: True
      obtain ok w3 where i3: "env_malloc env (sizeof_io_event * size_t (int k)) w2 = (ok, w3)" by fastforce
      show ?thesis
      proof (cases ok)
        case False
        with True True2 i1 i2 i3 undo fails [of "''Can't initialize mutext (not enough memory for the events member): ''" 0 w3]
          resource_refusedI(1) [of env _ _ w3]
        show ?thesis by (auto simp: newContext_finish_def malloc_def)
      next
        case ok: True
        obtain h w4 where i4: "env_NewGlobalRef env obj w3 = (h, w4)" by fastforce
        obtain b oom w5 where i5:
          "env_NewDirectByteBuffer env (next_addr m) sizeof_io_control w4 = (b, oom, w5)"
          by (metis surj_pair)
        let ?c = "c\<lparr>queueSize := int k, iocbLock := MUnlocked, pollLock := MUnlocked, events_ptr := ?n,
          events_arr := replicate k uninit_event, iocbPut := 0, iocbGet := 0, used := 0, thisObject := h\<rparr>"
        let ?m' = "m\<lparr>ctls := (ctls m)(next_addr m \<mapsto> ?c), iocbs := live_from (next_addr m + 2) k (iocbs m),
          arrays := (arrays m)(Suc (next_addr m) \<mapsto> ?sz, ?n \<mapsto> sizeof_io_event * size_t (int k)),
          rings := (rings m)(ctx \<mapsto> ring), grefs := (if h = 0 then grefs m else (grefs m)(h \<mapsto> obj)),
          next_addr := Suc ?n, world := w5,
          exc := (if b = 0 \<and> oom then Some OutOfMemoryError else exc m)\<rparr>"
        have run: "newContext_finish env obj (next_addr m) (int k) (built m c k ?sz ctx ring ?n w)
            = Some (b, ?m')"
          using True True2 ok i1 i2 i3 i4 i5
          by (cases m, cases c) (auto simp: newContext_finish_def malloc_def NewGlobalRef_def built_def
            with_control_def NewDirectByteBuffer_def fun_eq_iff)
        have "pool_inv ?c \<and> pool_free ?c = [next_addr m + 2..<next_addr m + 2 + k]"
          using arr k by (intro full_pool) simp_all
        moreover have "ready ?m'"
          using ready by (auto simp: ready_def heap_ok_def unallocated_def classes_loaded_def live_from_def
            uninit_ptr_def)
        ultimately have "new_context env obj k m b ?m'"
          unfolding new_context_def Let_def using arr ptr ctx i4 i5
          by (intro exI [of _ ?c] exI [of _ w3] exI [of _ w4] exI [of _ oom] exI [of _ ring]) simp
        with run show ?thesis by blast
      qed
    qed
  qed
qed

text \<open>The pool array is filled: either all the way, or up to the block that \<open>malloc\<close> refused.\<close>

lemma alloc_built:
  assumes heap: "heap_ok m"
    and m1: "m1 = m\<lparr>ctls := (ctls m)(next_addr m \<mapsto> c), arrays := (arrays m)(Suc (next_addr m) \<mapsto> sz),
      rings := (rings m)(ctx \<mapsto> ring), next_addr := next_addr m + 2, world := w\<rparr>"
    and c: "length (iocb_arr c) = k"
  shows "\<exists>j w' arr. j \<le> k \<and> length arr = k
    \<and> take j arr = [next_addr m + 2..<next_addr m + 2 + j]
    \<and> alloc_iocbs env (next_addr m) k 0 m1 = Some (if j = k then None else Some j,
        built m (c\<lparr>iocb_arr := arr\<rparr>) j sz ctx ring (next_addr m + 2 + j) w')
    \<and> (j = k \<or> resource_refused env k)"
proof -
  let ?p = "next_addr m"
  have "\<exists>r j w' arr. alloc_iocbs env ?p k 0 m1 = Some (r,
      m1\<lparr>ctls := (ctls m1)(?p \<mapsto> c\<lparr>iocb_arr := arr\<rparr>), iocbs := live_from (next_addr m1) j (iocbs m1),
        next_addr := next_addr m1 + j, world := w'\<rparr>)
    \<and> r = (if j = k then None else Some (0 + j)) \<and> j \<le> k \<and> length arr = length (iocb_arr c)
    \<and> take 0 arr = take 0 (iocb_arr c) \<and> take j (drop 0 arr) = [next_addr m1..<next_addr m1 + j]
    \<and> (j = k \<or> (\<forall>k. resource_refused env k))"
    by (rule alloc_iocbs_cases) (simp_all add: m1 c)
  then obtain r j w' arr where run: "alloc_iocbs env ?p k 0 m1 = Some (r,
      m1\<lparr>ctls := (ctls m1)(?p \<mapsto> c\<lparr>iocb_arr := arr\<rparr>), iocbs := live_from (next_addr m1) j (iocbs m1),
        next_addr := next_addr m1 + j, world := w'\<rparr>)"
    and r': "r = (if j = k then None else Some (0 + j))" "j \<le> k" "length arr = length (iocb_arr c)"
      "take j (drop 0 arr) = [next_addr m1..<next_addr m1 + j]"
    and all: "j = k \<or> (\<forall>k. resource_refused env k)"
    by blast
  have r: "r = (if j = k then None else Some j)" "j \<le> k" "length arr = k"
    "take j arr = [?p + 2..<?p + 2 + j]"
    using r' c by (simp_all add: m1 del: upt_Suc)
  have "m1\<lparr>ctls := (ctls m1)(?p \<mapsto> c\<lparr>iocb_arr := arr\<rparr>), iocbs := live_from (next_addr m1) j (iocbs m1),
      next_addr := next_addr m1 + j, world := w'\<rparr>
    = built m (c\<lparr>iocb_arr := arr\<rparr>) j sz ctx ring (?p + 2 + j) w'"
    by (cases m) (simp add: m1 built_def)
  with run r(1) have "alloc_iocbs env ?p k 0 m1 = Some (if j = k then None else Some j,
      built m (c\<lparr>iocb_arr := arr\<rparr>) j sz ctx ring (?p + 2 + j) w')" by (simp only:)
  with r all show ?thesis by blast
qed

lemma newContext_cases:
  assumes ready: "ready m" and oom: "oom_class env" and k: "0 < k"
    and fresh: "\<And>w. rings m (fst (snd (env_io_queue_init env (int k) w))) = None"
  shows "\<exists>r m'. newContext env obj (int k) m = Some (r, m')
    \<and> (failed_cleanly m r m' \<and> resource_refused env k \<or> new_context env obj k m r m')"
proof -
  let ?p = "next_addr m" and ?sz = "sizeof_iocb_ptr * size_t (int k)"
  from ready have heap: "heap_ok m" by (simp add: ready_def)
  have p: "?p \<noteq> NULL" "ctls m ?p = None" using heap_ok_next [OF heap] by (simp_all add: unallocated_def)
  have fails: "\<exists>m'. throwOutOfMemoryError env (undone m ctx n w) = Some m' \<and> failed_cleanly m 0 m'"
    if "?p \<le> n" for ctx n w
    using ready oom that by (intro throwOutOfMemoryError_clean undone_ready) simp_all
  obtain ok1 w1 where i1: "env_malloc env (word_of_int sizeof_io_control) (world m) = (ok1, w1)" by fastforce
  show ?thesis
  proof (cases ok1)
    case False
    with i1 throwOutOfMemoryError_clean [OF oom, of "m\<lparr>world := w1\<rparr>" m] ready
      resource_refusedI(1) [of env _ _ w1] show ?thesis
      by (auto simp: newContext_def malloc_def same_memory_def)
  next
    case ok1: True
    obtain res ctx ring w2 where i2: "env_io_queue_init env (int k) w1 = (res, ctx, ring, w2)"
      by (metis surj_pair)
    from fresh [of w1] i2 have ctx: "rings m ctx = None" by simp
    show ?thesis
    proof (cases "res = 0")
      case False
      have ready1: "ready (undone m ctx (Suc ?p) w2)" using ready by (intro undone_ready) simp_all
      have "newContext env obj (int k) m = do {
          m' \<leftarrow> throwRuntimeExceptionErrorNo env ''Cannot initialize queue:'' res (undone m ctx (Suc ?p) w2);
          Some (0, m') }"
        using i1 i2 ok1 False p ctx
        by (cases m) (simp add: newContext_def malloc_def with_control_def free_ctl_def
          io_queue_release_def emit_def undone_def fun_upd_idem)
      with throwRuntimeException_clean [OF ready1 same_memory_undone, of env "''Cannot initialize queue:''" res]
        resource_refusedI(2) [OF i2 False]
      show ?thesis by auto
    next
      case res: True
      obtain ok3 w3 where i3: "env_malloc env ?sz w2 = (ok3, w3)" by fastforce
      show ?thesis
      proof (cases ok3)
        case False
        have "newContext env obj (int k) m = do {
            m' \<leftarrow> throwOutOfMemoryError env (undone m ctx (Suc ?p) w3);
            Some (0, m') }"
          using i1 i2 i3 ok1 res False p ctx
          by (cases m) (simp add: newContext_def malloc_def with_control_def free_ctl_def
            io_queue_release_def emit_def undone_def fun_upd_idem)
        with fails [of "Suc ?p" ctx w3] i3 False resource_refusedI(1) [of env _ _ w3] show ?thesis by auto
      next
        case ok3: True
        let ?c = "uninit_control\<lparr>ioContext := ctx, iocb_ptr := Suc ?p, iocb_arr := replicate k uninit_ptr\<rparr>"
        let ?m1 = "m\<lparr>ctls := (ctls m)(?p \<mapsto> ?c), arrays := (arrays m)(Suc ?p \<mapsto> ?sz),
          rings := (rings m)(ctx \<mapsto> ring), next_addr := ?p + 2, world := w3\<rparr>"
        obtain j w4 arr where j: "j \<le> k" "length arr = k" "take j arr = [?p + 2..<?p + 2 + j]"
          and run: "alloc_iocbs env ?p k 0 ?m1 = Some (if j = k then None else Some j,
            built m (?c\<lparr>iocb_arr := arr\<rparr>) j ?sz ctx ring (?p + 2 + j) w4)"
          and all: "j = k \<or> resource_refused env k"
          using alloc_built [OF heap refl, where c = ?c and k = k and env = env and sz = ?sz and ctx = ctx
            and ring = ring and w = w3] by auto
        have start: "newContext env obj (int k) m = do {
            (failed, m') \<leftarrow> alloc_iocbs env ?p k 0 ?m1;
            case failed of
              Some i \<Rightarrow> do {
                m' \<leftarrow> iocb_destroy_bounded ?p (int i) m';
                m' \<leftarrow> free_ctl ?p (io_queue_release ctx m');
                m' \<leftarrow> throwOutOfMemoryError env m';
                Some (0, m') }
            | None \<Rightarrow> newContext_finish env obj ?p (int k) m' }"
          using i1 i2 i3 ok1 res ok3 p
          by (cases m) (simp add: newContext_def malloc_def with_control_def uninit_control_def
            cong: option.case_cong)
        show ?thesis
        proof (cases "j = k")
          case True
          with j have "arr = [?p + 2..<?p + 2 + k]" by simp
          with True run start newContext_finish_cases [OF ready ctx, of "?c\<lparr>iocb_arr := arr\<rparr>" k env obj ring w4] k
          show ?thesis by simp
        next
          case False
          obtain m2 where m2: "iocb_destroy_bounded ?p (int j)
              (built m (?c\<lparr>iocb_arr := arr\<rparr>) j ?sz ctx ring (?p + 2 + j) w4) = Some m2"
            "free_ctl ?p (io_queue_release ctx m2) = Some (undone m ctx (?p + 2 + j) w4)"
            using undo_built [OF heap ctx, of j "?c\<lparr>iocb_arr := arr\<rparr>" ?sz ring "?p + 2 + j" w4] j by auto
          with False run start fails [of "?p + 2 + j" ctx w4] all show ?thesis by auto
        qed
      qed
    qed
  qed
qed

subsection \<open>What deleteContext frees\<close>

lemma iocb_destroy_eq:
  assumes "ctls m p = Some c" and "length (iocb_arr c) = nat (queueSize c)" and "NULL \<notin> set (iocb_arr c)"
    and "iocb_ptr c \<noteq> NULL" and "arrays m (iocb_ptr c) \<noteq> None"
  shows "iocb_destroy p m = (if distinct (iocb_arr c) \<and> set (iocb_arr c) \<subseteq> dom (iocbs m)
    then Some (m\<lparr>iocbs := iocbs m |` (- set (iocb_arr c)), arrays := (arrays m)(iocb_ptr c := None)\<rparr>)
    else None)"
  using iocb_destroy_loop_eq [OF assms(1), of 0 "nat (queueSize c)"] assms
  by (simp add: iocb_destroy_def iocb_destroy_bounded_def iocb_destroy_members_def free_array_def)

text \<open>Every block and reference that belongs to the context at \<open>p\<close> is live and named once.\<close>

definition owns_memory :: "addr \<Rightarrow> io_control \<Rightarrow> 'w machine \<Rightarrow> bool" where
  "owns_memory p c m \<longleftrightarrow> p \<noteq> NULL \<and> ctls m p = Some c \<and> pool_inv c
   \<and> distinct (iocb_arr c) \<and> set (iocb_arr c) \<subseteq> dom (iocbs m) \<and> NULL \<notin> set (iocb_arr c)
   \<and> iocb_ptr c \<noteq> NULL \<and> events_ptr c \<noteq> NULL \<and> iocb_ptr c \<noteq> events_ptr c
   \<and> arrays m (iocb_ptr c) \<noteq> None \<and> arrays m (events_ptr c) \<noteq> None
   \<and> grefs m (thisObject c) \<noteq> None"

definition freed :: "addr \<Rightarrow> io_control \<Rightarrow> 'w machine \<Rightarrow> 'w machine" where
  "freed p c m = m\<lparr>ctls := (ctls m)(p := None), iocbs := iocbs m |` (- set (iocb_arr c)),
     arrays := (arrays m)(iocb_ptr c := None, events_ptr c := None),
     rings := (rings m)(ioContext c := None), grefs := (grefs m)(thisObject c := None),
     log := log m @ [EQueueRelease (ioContext c), EDeleteGlobalRef (thisObject c)]\<rparr>"

text \<open>The machine when the dumb write is with the kernel.\<close>

definition stop_requested :: "'w env \<Rightarrow> addr \<Rightarrow> io_control \<Rightarrow> iocb \<Rightarrow> int \<Rightarrow> 'w \<Rightarrow> 'w machine \<Rightarrow> 'w machine" where
  "stop_requested env p c blk r w m =
     m\<lparr>ctls := (ctls m)(p \<mapsto> c\<lparr>used := used c + 1, iocbGet := (iocbGet c + 1) mod queueSize c\<rparr>),
       iocbs := (iocbs m)(hd (pool_free c) \<mapsto>
         (env_prep_pwrite env blk (dumbWriteHandler m) NULL 0 0)\<lparr>iocb_data := DMinusOne\<rparr>),
       log := log m @ [ESubmit (ioContext c) (hd (pool_free c)) r], world := w\<rparr>"

lemma pool_lock_irrelevant [simp]:
  "pool_inv (c\<lparr>pollLock := l\<rparr>) = pool_inv c" "pool_free (c\<lparr>pollLock := l\<rparr>) = pool_free c"
  by (simp_all add: pool_inv_def pool_free_def)

lemma deleteContext_frees:
  assumes ptr: "env_GetDirectBufferAddress env cp (world m) = p" and c: "ctls m p = Some c"
    and inv: "pool_inv c" and room: "used c < queueSize c"
    and blk: "iocbs m (hd (pool_free c)) = Some blk"
    and sub: "env_io_submit env (ioContext c) (hd (pool_free c))
      ((env_prep_pwrite env blk (dumbWriteHandler m) NULL 0 0)\<lparr>iocb_data := DMinusOne\<rparr>) (world m) = (r, w)"
    and r: "0 \<le> r"
    and m2: "m2 = others (stop_requested env p c blk r w m)"
    and own: "owns_memory p c2 m2" and lock: "pollLock c2 = MUnlocked"
    and quiet: "waiting p c2 [] m2"
  shows "deleteContext env others cp m = Some (freed p c2 m2)"
proof -
  note taken = taken_inv [OF inv room]
  from own have p: "p \<noteq> NULL" and c2: "ctls m2 p = Some c2" "pool_inv c2" by (simp_all add: owns_memory_def)
  have "submit env p (hd (pool_free c)) (m\<lparr>ctls := (ctls m)(p \<mapsto>
      c\<lparr>used := used c + 1, iocbGet := (iocbGet c + 1) mod queueSize c\<rparr>),
      iocbs := (iocbs m)(hd (pool_free c) \<mapsto>
        (env_prep_pwrite env blk (dumbWriteHandler m) NULL 0 0)\<lparr>iocb_data := DMinusOne\<rparr>)\<rparr>)
    = Some (True, stop_requested env p c blk r w m)"
    using submit_accepted [of _ p _ "hd (pool_free c)" _ env r w] sub r
    by (cases m) (simp add: stop_requested_def)
  note submitted = this
  obtain arr ring where reap: "reap_at env p 0 1 m2 = Some (0,
      m2\<lparr>ctls := (ctls m2)(p \<mapsto> c2\<lparr>events_arr := arr\<rparr>), rings := (rings m2)(ioContext c2 \<mapsto> ring)\<rparr>)"
    using reap_at_waiting [OF quiet, of 0 1 env] by auto
  have locks: "lock_pollLock p m2 = Some (m2\<lparr>ctls := (ctls m2)(p \<mapsto> c2\<lparr>pollLock := MLocked\<rparr>)\<rparr>)"
    "unlock_pollLock p (m2\<lparr>ctls := (ctls m2)(p \<mapsto> c2\<lparr>pollLock := MLocked\<rparr>)\<rparr>) = Some m2"
    using c2 lock by (cases m2, cases c2, simp add: lock_pollLock_def unlock_pollLock_def fun_upd_idem)+
  let ?c4 = "c2\<lparr>events_arr := arr, pollLock := MDestroyed, iocbLock := MDestroyed\<rparr>"
  let ?m4 = "m2\<lparr>rings := (rings m2)(ioContext c2 := None), log := log m2 @ [EQueueRelease (ioContext c2)],
    ctls := (ctls m2)(p \<mapsto> ?c4)\<rparr>"
  have destroy: "iocb_destroy p ?m4 = Some (?m4\<lparr>iocbs := iocbs m2 |` (- set (iocb_arr c2)),
      arrays := (arrays m2)(iocb_ptr c2 := None)\<rparr>)"
    using own by (subst iocb_destroy_eq) (auto simp: owns_memory_def length_iocb_arr)
  have "deleteContext env others cp m = do {
      m \<leftarrow> iocb_destroy p ?m4;
      m \<leftarrow> DeleteGlobalRef (thisObject c2) m;
      m \<leftarrow> free_array (events_ptr c2) m;
      free_ctl p m }"
    using ptr p c inv room blk submitted m2 locks reap c2 lock taken(3)
    by (simp add: deleteContext_def getIOControl_ptr getIOCB_at_def getIOCB_avail
      with_control_def io_queue_release_def emit_def pool_inv_def)
  also have "\<dots> = Some (freed p c2 m2)"
    unfolding destroy using own
    by (cases m2) (auto simp: DeleteGlobalRef_def emit_def free_array_def free_ctl_def freed_def owns_memory_def)
  finally show ?thesis .
qed

subsection \<open>Properties of contexts\<close>


definition empty_machine :: "nat machine" where
  "empty_machine = (sample_machine 0 1)\<lparr>ctls := Map.empty, iocbs := Map.empty, arrays := Map.empty,
     rings := Map.empty, grefs := Map.empty\<rparr>"

lemma empty_machine_ready: "ready empty_machine"
  by (simp add: empty_machine_def ready_def classes_loaded_def heap_ok_def unallocated_def uninit_ptr_def)

lemma sample_oom: "oom_class sample_env"
  by (simp add: oom_class_def)

lemma empty_machine_simps [simp]:
  "rings empty_machine = Map.empty" "next_addr empty_machine = 40" "exc empty_machine = None"
  "ctls empty_machine = Map.empty" "iocbs empty_machine = Map.empty" "grefs empty_machine = Map.empty"
  "forceSysCall empty_machine = False" "dumbWriteHandler empty_machine = 5" "world empty_machine = 1"
  by (simp_all add: empty_machine_def)



text \<open>C21: \<open>deleteContext\<close> frees everything that belongs to the context: once the poller has taken
  the dumb write and no completion is left, the control structure, every control block, the pool
  and event arrays, the kernel context and the reference to the Java object are released, each
  exactly once, and no other memory is touched.\<close>

theorem deleteContext_frees_all:
  assumes "env_GetDirectBufferAddress env cp (world m) = p" and "ctls m p = Some c"
    and "pool_inv c" and "used c < queueSize c" and "iocbs m (hd (pool_free c)) = Some blk"
    and "env_io_submit env (ioContext c) (hd (pool_free c))
      ((env_prep_pwrite env blk (dumbWriteHandler m) NULL 0 0)\<lparr>iocb_data := DMinusOne\<rparr>) (world m) = (r, w)"
    and "0 \<le> r" and "m2 = others (stop_requested env p c blk r w m)"
    and "owns_memory p c2 m2" and "pollLock c2 = MUnlocked" and "waiting p c2 [] m2"
  shows "\<exists>m'. deleteContext env others cp m = Some m'
    \<and> ctls m' = (ctls m2)(p := None) \<and> iocbs m' = iocbs m2 |` (- set (iocb_arr c2))
    \<and> arrays m' = (arrays m2)(iocb_ptr c2 := None, events_ptr c2 := None)
    \<and> rings m' = (rings m2)(ioContext c2 := None) \<and> grefs m' = (grefs m2)(thisObject c2 := None)
    \<and> blocks m' = blocks m2 \<and> cstrings m' = cstrings m2 \<and> exc m' = exc m2
    \<and> log m' = log m2 @ [EQueueRelease (ioContext c2), EDeleteGlobalRef (thisObject c2)]"
  using deleteContext_frees [where others = others, OF assms] by (auto simp: freed_def)

lemma sample_control_waiting:
  "waiting 10 (sample_control 0) [] (sample_machine 0 1)" "owns_memory 10 (sample_control 0) (sample_machine 0 1)"
  using sample_ready [of 0 1] sample_ring_inv
  by (simp_all add: waiting_def owns_memory_def ready_def has_usable_ring_def ring_count_def
    ring_pending_def sample_ring_def insert_commute)

lemma sample_delete:
  "\<exists>m'. deleteContext sample_env (\<lambda>m. m\<lparr>ctls := [10 \<mapsto> sample_control 0]\<rparr>) 10 (sample_machine 0 1) = Some m'"
proof -
  let ?others = "\<lambda>m. m\<lparr>ctls := [10 \<mapsto> sample_control 0]\<rparr> :: nat machine"
  let ?m2 = "?others (stop_requested sample_env 10 (sample_control 0) (sample_iocb 6 DNull) 1 1 (sample_machine 0 1))"
  have quiet: "waiting 10 (sample_control 0) [] ?m2" and own: "owns_memory 10 (sample_control 0) ?m2"
    using sample_control_waiting
    by (auto simp: waiting_def owns_memory_def stop_requested_def classes_loaded_def)
  have "deleteContext sample_env ?others 10 (sample_machine 0 1) = Some (freed 10 (sample_control 0) ?m2)"
    by (rule deleteContext_frees [where others = ?others and r = 1 and w = 1 and c = "sample_control 0"
        and blk = "sample_iocb 6 DNull", OF _ _ _ _ _ _ _ refl own _ quiet]) simp_all
  then show ?thesis by blast
qed

theorem deleteContext_frees_all_witness:
  "\<exists>m'. deleteContext sample_env (\<lambda>m. m\<lparr>ctls := [10 \<mapsto> sample_control 0]\<rparr>) 10 (sample_machine 0 1) = Some m'
    \<and> ctls m' 10 = None \<and> dom (iocbs m') = {} \<and> arrays m' = Map.empty \<and> grefs m' = Map.empty"
proof -
  let ?others = "\<lambda>m. m\<lparr>ctls := [10 \<mapsto> sample_control 0]\<rparr> :: nat machine"
  let ?m2 = "?others (stop_requested sample_env 10 (sample_control 0) (sample_iocb 6 DNull) 1 1 (sample_machine 0 1))"
  have quiet: "waiting 10 (sample_control 0) [] ?m2" and own: "owns_memory 10 (sample_control 0) ?m2"
    using sample_control_waiting
    by (auto simp: waiting_def owns_memory_def stop_requested_def classes_loaded_def)
  have "\<exists>m'. deleteContext sample_env ?others 10 (sample_machine 0 1) = Some m'
    \<and> ctls m' = (ctls ?m2)(10 := None) \<and> iocbs m' = iocbs ?m2 |` (- set (iocb_arr (sample_control 0)))
    \<and> arrays m' = (arrays ?m2)(iocb_ptr (sample_control 0) := None, events_ptr (sample_control 0) := None)
    \<and> rings m' = (rings ?m2)(ioContext (sample_control 0) := None)
    \<and> grefs m' = (grefs ?m2)(thisObject (sample_control 0) := None)
    \<and> blocks m' = blocks ?m2 \<and> cstrings m' = cstrings ?m2 \<and> exc m' = exc ?m2
    \<and> log m' = log ?m2 @ [EQueueRelease (ioContext (sample_control 0)),
        EDeleteGlobalRef (thisObject (sample_control 0))]"
    by (rule deleteContext_frees_all [where others = ?others and r = 1 and w = 1 and c = "sample_control 0"
        and blk = "sample_iocb 6 DNull", OF _ _ _ _ _ _ _ refl own _ quiet]) simp_all
  then show ?thesis by (auto simp: stop_requested_def fun_eq_iff)
qed

text \<open>What no sequence of pool operations changes.\<close>

lemma getIOCB_opt_keeps:
  assumes "getIOCB_opt c = Some (r, c')"
  shows "iocb_arr c' = iocb_arr c \<and> iocb_ptr c' = iocb_ptr c \<and> queueSize c' = queueSize c"
  using assms by (auto simp: getIOCB_opt_def pool_defs bind_Some_iff Let_def split: if_splits prod.splits)

lemma putIOCB_arr:
  assumes "putIOCB c q = Some c'"
  shows "length (iocb_arr c') = length (iocb_arr c) \<and> set (iocb_arr c') \<subseteq> insert q (set (iocb_arr c))
    \<and> iocb_ptr c' = iocb_ptr c \<and> queueSize c' = queueSize c"
  using assms set_update_subset_insert [of "iocb_arr c" "nat (iocbPut c)" q]
  by (auto simp: pool_defs arr_set_def bind_Some_iff Let_def split: if_splits)

lemma run_pool_keeps:
  assumes "run_pool getIOCB_opt putIOCB ops c = Some (rs, c')"
  shows "length (iocb_arr c') = length (iocb_arr c) \<and> set (iocb_arr c') \<subseteq> set (iocb_arr c) \<union> set (puts_of ops)
    \<and> iocb_ptr c' = iocb_ptr c \<and> queueSize c' = queueSize c"
  using assms
proof (induction ops arbitrary: c rs)
  case Nil
  then show ?case by simp
next
  case (Cons op ops)
  show ?case
  proof (cases op)
    case PGet
    with Cons.prems obtain r c1 rs1 where "getIOCB_opt c = Some (r, c1)"
      and "run_pool getIOCB_opt putIOCB ops c1 = Some (rs1, c')" by (auto simp: bind_Some_iff)
    with Cons.IH [of c1 rs1] getIOCB_opt_keeps [of c r c1] PGet show ?thesis by simp
  next
    case (PPut q)
    with Cons.prems obtain c1 where "putIOCB c q = Some c1"
      and "run_pool getIOCB_opt putIOCB ops c1 = Some (rs, c')" by (auto simp: bind_Some_iff)
    with Cons.IH [of c1 rs] putIOCB_arr [of c q c1] PPut show ?thesis by auto
  qed
qed

text \<open>Two blocks taken from a new pool, the second returned.\<close>

lemma second_returned_first:
  assumes "pool_inv c" and "used c = 0" and "iocbGet c = 0" and "iocb_arr c = qa # qb # qs"
    and "NULL \<notin> set (iocb_arr c)"
    and "run_pool getIOCB_opt putIOCB [PGet, PGet, PPut qb] c = Some (rs, c')"
  shows "rs = [Some qa, Some qb] \<and> iocb_arr c' = qb # qb # qs"
proof -
  have n: "queueSize c = int (length qs) + 2" using assms(1,4) by (simp add: pool_inv_def)
  then have put: "iocbPut c = 0" using assms(1-3) by (simp add: pool_inv_def)
  have nz: "qa \<noteq> NULL" "qb \<noteq> NULL" using assms(4,5) by auto
  have free: "pool_free c = qa # qb # qs"
    using ring_slice_whole [of "iocb_arr c"] assms(2-4) n by (simp add: pool_free_def nat_add_distrib)
  obtain c1 where g1: "getIOCB c = Some (qa, c1)" and c1: "c1 = c\<lparr>used := 1, iocbGet := 1 mod queueSize c\<rparr>"
    using getIOCB_avail [OF assms(1)] assms(2,3) n free by simp
  have i1: "pool_inv c1" "pool_free c1 = qb # qs"
    using getIOCB_inv [OF assms(1) _ g1] assms(2) n free by simp_all
  have u1: "used c1 < queueSize c1" using n c1 by simp
  obtain c2 where g2: "getIOCB c1 = Some (qb, c2)" and c2: "iocb_arr c2 = iocb_arr c" "iocbPut c2 = 0"
    using getIOCB_avail [OF i1(1) u1] i1(2) put c1 by simp
  have i2: "pool_inv c2" using getIOCB_inv [OF i1(1) u1 g2] by simp
  show ?thesis
    using assms(4,6) g1 g2 putIOCB_used [OF i2, of qb] nz c2 by (auto simp: getIOCB_opt_def)
qed

text \<open>C33: freeing the pool while requests are in flight. \<open>iocb_destroy\<close> frees what the cells of the pool
  array name, not what was allocated: after any operations on the pool it is defined exactly when
  the cells name distinct live blocks. A block that was only taken is still named by its cell, so
  one block taken and none returned is freed with the rest, under the kernel's hands but once. When
  two were taken and the second came back first, its address stands in two cells and that of the
  first in none: one block is freed twice, the other never.\<close>

theorem destroy_in_flight:
  assumes "pool_inv c" and "NULL \<notin> set (iocb_arr c)" and "NULL \<notin> set (puts_of ops)"
    and "iocb_ptr c \<noteq> NULL" and "arrays m (iocb_ptr c) \<noteq> None"
    and "run_pool getIOCB_opt putIOCB ops c = Some (rs, c')" and "ctls m p = Some c'"
  shows "(iocb_destroy p m \<noteq> None \<longleftrightarrow> distinct (iocb_arr c') \<and> set (iocb_arr c') \<subseteq> dom (iocbs m))
    \<and> (ops = [PGet] \<longrightarrow> iocb_arr c' = iocb_arr c)
    \<and> (\<forall>qa qb qs. used c = 0 \<and> iocbGet c = 0 \<and> iocb_arr c = qa # qb # qs \<and> ops = [PGet, PGet, PPut qb]
        \<longrightarrow> rs = [Some qa, Some qb] \<and> iocb_arr c' = qb # qb # qs \<and> iocb_destroy p m = None)"
proof (intro conjI allI impI)
  note keeps = run_pool_keeps [OF assms(6)]
  have dest: "iocb_destroy p m \<noteq> None \<longleftrightarrow> distinct (iocb_arr c') \<and> set (iocb_arr c') \<subseteq> dom (iocbs m)"
    by (subst iocb_destroy_eq [OF assms(7)]) (use assms keeps length_iocb_arr [OF assms(1)] in auto)
  then show "iocb_destroy p m \<noteq> None \<longleftrightarrow> distinct (iocb_arr c') \<and> set (iocb_arr c') \<subseteq> dom (iocbs m)" .
  show "iocb_arr c' = iocb_arr c" if "ops = [PGet]"
    using assms(6) that getIOCB_opt_keeps by (auto simp: bind_Some_iff)
  fix qa qb qs
  assume "used c = 0 \<and> iocbGet c = 0 \<and> iocb_arr c = qa # qb # qs \<and> ops = [PGet, PGet, PPut qb]"
  then have new: "used c = 0" "iocbGet c = 0" "iocb_arr c = qa # qb # qs"
    and ops: "ops = [PGet, PGet, PPut qb]" by blast+
  have "rs = [Some qa, Some qb] \<and> iocb_arr c' = qb # qb # qs"
    using second_returned_first [OF assms(1) new assms(2)] assms(6) ops by blast
  with dest show "rs = [Some qa, Some qb]" "iocb_arr c' = qb # qb # qs" "iocb_destroy p m = None"
    by auto
qed

theorem destroy_in_flight_witness:
  "(\<exists>rs c'. run_pool getIOCB_opt putIOCB [PGet, PGet, PPut 21] (sample_control 0) = Some (rs, c')
      \<and> iocb_destroy 10 ((sample_machine 0 1)\<lparr>ctls := [10 \<mapsto> c']\<rparr>) = None)
    \<and> (\<exists>rs c'. run_pool getIOCB_opt putIOCB [PGet] (sample_control 0) = Some (rs, c')
      \<and> iocb_destroy 10 ((sample_machine 0 1)\<lparr>ctls := [10 \<mapsto> c']\<rparr>) \<noteq> None)"
proof -
  obtain rs1 c1 where run1: "run_pool getIOCB_opt putIOCB [PGet, PGet, PPut 21] (sample_control 0) = Some (rs1, c1)"
    using iocb_pool.run_refines_list [OF sample_pool_inv(1), of "[PGet, PGet, PPut 21]"]
    by (auto simp: pool_size_def)
  obtain rs2 c2 where run2: "run_pool getIOCB_opt putIOCB [PGet] (sample_control 0) = Some (rs2, c2)"
    using iocb_pool.run_refines_list [OF sample_pool_inv(1), of "[PGet]"] by (auto simp: pool_size_def)
  have "iocbGet (sample_control 0) = 0" by (simp add: sample_control_def)
  with destroy_in_flight [OF sample_pool_inv(1) _ _ _ _ run1, where m = "(sample_machine 0 1)\<lparr>ctls := [10 \<mapsto> c1]\<rparr>" and p = 10]
  have "iocb_destroy 10 ((sample_machine 0 1)\<lparr>ctls := [10 \<mapsto> c1]\<rparr>) = None" by simp
  moreover from destroy_in_flight [OF sample_pool_inv(1) _ _ _ _ run2, where
      m = "(sample_machine 0 1)\<lparr>ctls := [10 \<mapsto> c2]\<rparr>" and p = 10]
  have "iocb_destroy 10 ((sample_machine 0 1)\<lparr>ctls := [10 \<mapsto> c2]\<rparr>) \<noteq> None" by (simp add: insert_commute)
  ultimately show ?thesis using run1 run2 by blast
qed

subsection \<open>From creation to deletion\<close>

text \<open>What the poller does to the machine with one event it has reaped.\<close>

definition poller_handles :: "'w env \<Rightarrow> addr \<Rightarrow> bool \<Rightarrow> io_event \<Rightarrow> 'w machine \<Rightarrow> 'w machine" where
  "poller_handles env p uf e m =
     (case blockedPoll_event env p uf e (-1) m of Some (_, _, m') \<Rightarrow> m' | None \<Rightarrow> m)"

lemma poller_takes_stop:
  assumes c: "ctls m p = Some c" and inv: "pool_inv c" and new: "used c = 0" "iocbGet c = 0"
    and arr: "iocb_arr c = q # qs" and blk: "iocbs m q = Some blk"
    and prep: "aio_fildes (env_prep_pwrite env blk (dumbWriteHandler m) NULL 0 0) = dumbWriteHandler m"
  shows "poller_handles env p uf \<lparr>ev_obj = q, ev_res = res\<rparr> (stop_requested env p c blk r w m)
    = (stop_requested env p c blk r w m)\<lparr>ctls := (ctls m)(p \<mapsto>
        c\<lparr>iocbGet := 1 mod queueSize c, iocbPut := 1 mod queueSize c\<rparr>)\<rparr>"
proof -
  let ?m = "stop_requested env p c blk r w m" and ?e = "\<lparr>ev_obj = q, ev_res = res\<rparr>"
  let ?c = "c\<lparr>used := 1, iocbGet := 1 mod queueSize c\<rparr>"
  have n: "queueSize c = int (length qs) + 1" using inv arr by (simp add: pool_inv_def)
  have put0: "iocbPut c = 0" using inv new by (simp add: pool_inv_def)
  have free: "hd (pool_free c) = q"
    using ring_slice_whole [of "iocb_arr c"] arr new n by (simp add: pool_free_def nat_add_distrib)
  have taken: "pool_inv ?c" using taken_inv(1) [OF inv] new n by simp
  have "putIOCB ?c q = Some (c\<lparr>iocbGet := 1 mod queueSize c, iocbPut := 1 mod queueSize c\<rparr>)"
    using putIOCB_used [OF taken, of q] put0 arr new(1) by (cases c) simp
  moreover have "ctls ?m p = Some ?c" using new by (simp add: stop_requested_def)
  moreover have "iocbs ?m (ev_obj ?e) \<noteq> None" by (simp add: stop_requested_def free)
  moreover have "aio_fildes (cb_of ?m ?e) = dumbWriteHandler ?m"
    using prep by (simp add: cb_of_def stop_requested_def free)
  ultimately have "blockedPoll_event env p uf ?e (-1) ?m = Some (False, -1,
      ?m\<lparr>ctls := (ctls ?m)(p \<mapsto> c\<lparr>iocbGet := 1 mod queueSize c, iocbPut := 1 mod queueSize c\<rparr>)\<rparr>)"
    using blockedPoll_event_dumb [of ?m p ?c ?e env uf "-1"] taken by simp
  then show ?thesis by (simp add: poller_handles_def stop_requested_def)
qed

text \<open>The pool is as full as it was, one cell further round.\<close>

lemma rotated_pool:
  assumes inv: "pool_inv c" and new: "used c = 0" "iocbGet c = 0"
  shows "pool_inv (c\<lparr>iocbGet := 1 mod queueSize c, iocbPut := 1 mod queueSize c\<rparr>)"
proof -
  have "set (ring_slice (iocb_arr c) i (length (iocb_arr c))) \<subseteq> set (iocb_arr c)" for i
    by (auto simp: ring_slice_def intro!: nth_mem mod_less_divisor)
  moreover have "set (pool_free c) = set (iocb_arr c)"
    using ring_slice_whole [of "iocb_arr c"] new length_iocb_arr [OF inv] by (simp add: pool_free_def)
  ultimately show ?thesis
    using inv new length_iocb_arr [OF inv] by (auto simp: pool_inv_def pool_free_def)
qed

text \<open>C10: everything that \<open>newContext\<close> allocates is freed at \<open>deleteContext\<close>. A context that is created
  and deleted, with a poller that receives the dumb write in between, leaves the C heap, the
  kernel contexts and the global references exactly as they were before.\<close>

theorem new_delete_roundtrip:
  assumes ready: "ready m" and oom: "oom_class env" and k: "0 < k"
    and fresh: "\<And>w. rings m (fst (snd (env_io_queue_init env (int k) w))) = None"
    and new: "newContext env obj (int k) m = Some (r, m1)" and ok: "exc m = None" "exc m1 = None"
    and c: "ctls m1 (next_addr m) = Some c" and href: "thisObject c \<noteq> 0" "grefs m (thisObject c) = None"
    and ring: "rings m1 (ioContext c) = Some ring" "ring_inv ring" "has_usable_ring ring" "ring_count ring = 0"
    and uring: "\<not> forceSysCall m" and ptr: "env_GetDirectBufferAddress env r (world m1) = next_addr m"
    and prep: "\<And>b fd. aio_fildes (env_prep_pwrite env b fd NULL 0 0) = fd"
    and acc: "\<And>q cb. 0 \<le> fst (env_io_submit env (ioContext c) q cb (world m1))"
  shows "\<exists>m2. deleteContext env (poller_handles env (next_addr m) uf \<lparr>ev_obj = next_addr m + 2, ev_res = 0\<rparr>)
      r m1 = Some m2 \<and> same_memory m m2 \<and> exc m2 = None"
proof -
  let ?p = "next_addr m" and ?q = "next_addr m + 2"
  from ready have heap: "heap_ok m" by (simp add: ready_def)
  note nf = heap_ok_freshD [OF heap]
  have "new_context env obj k m r m1"
    using newContext_cases [OF ready oom k fresh, of obj] new ok by (auto simp: failed_cleanly_def)
  then have n: "ctls m1 = (ctls m)(?p \<mapsto> c)" "pool_inv c" "used c = 0" "queueSize c = int k"
    and get0: "iocbGet c = 0" and n': "iocb_arr c = [?q..<?q + k]" "pool_free c = [?q..<?q + k]" "pollLock c = MUnlocked"
    "iocb_ptr c = Suc ?p" "events_ptr c = ?q + k" "iocbs m1 = live_from ?q k (iocbs m)"
    "arrays m1 = (arrays m)(Suc ?p \<mapsto> sizeof_iocb_ptr * size_t (int k),
        ?q + k \<mapsto> sizeof_io_event * size_t (int k))"
    "rings m1 = (rings m)(ioContext c \<mapsto> ring)" "rings m (ioContext c) = None"
    "grefs m1 = (grefs m)(thisObject c \<mapsto> obj)" "forceSysCall m1 = forceSysCall m" "ready m1"
    "blocks m1 = blocks m" "cstrings m1 = cstrings m"
    using c href ring(1) by (auto simp: new_context_def Let_def)
  have arr: "iocb_arr c = ?q # [Suc ?q..<?q + k]" "hd (pool_free c) = ?q"
    unfolding n'(1,2) using k by (simp_all add: upt_conv_Cons del: upt_Suc)
  have blk: "iocbs m1 ?q = Some uninit_iocb" using k n'(6) by (simp add: live_from_def)
  let ?c = "c\<lparr>iocbGet := 1 mod queueSize c, iocbPut := 1 mod queueSize c\<rparr>"
  let ?others = "poller_handles env ?p uf \<lparr>ev_obj = ?q, ev_res = 0\<rparr>"
  obtain i w where sub: "env_io_submit env (ioContext c) (hd (pool_free c))
      ((env_prep_pwrite env uninit_iocb (dumbWriteHandler m1) NULL 0 0)\<lparr>iocb_data := DMinusOne\<rparr>)
      (world m1) = (i, w)" and i: "0 \<le> i"
    using acc by (metis surj_pair fst_conv)
  let ?m2 = "(stop_requested env ?p c uninit_iocb i w m1)\<lparr>ctls := (ctls m1)(?p \<mapsto> ?c)\<rparr>"
  have m2: "?m2 = ?others (stop_requested env ?p c uninit_iocb i w m1)"
    using poller_takes_stop [OF c n(2,3) get0 arr(1) blk prep] by simp
  have own: "owns_memory ?p ?c ?m2"
    using rotated_pool [OF n(2,3) get0] n'(1,4-7,10) heap_ok_next [OF heap] k
    by (auto simp: owns_memory_def stop_requested_def live_from_def)
  have quiet: "waiting ?p ?c [] ?m2"
    using rotated_pool [OF n(2,3) get0] n'(8,11,12) ring(2-4) uring
    by (auto simp: waiting_def stop_requested_def ready_def classes_loaded_def ring_pending_def)
  have "deleteContext env ?others r m1 = Some (freed ?p ?c ?m2)"
    by (rule deleteContext_frees [where others = ?others, OF ptr c n(2) _ _ sub i m2 own _ quiet])
      (use n(3,4) n'(3) k blk arr(2) in simp_all)
  moreover have "same_memory m (freed ?p ?c ?m2)"
  proof -
    have gone: "(iocbs m1)(hd (pool_free c) \<mapsto> b) |` (- set (iocb_arr c)) = iocbs m" for b
      unfolding n'(1,6) arr(2) restrict_fresh using k nf(2)
      by (auto simp: dead_from_def live_from_def fun_eq_iff)
    have "iocbs (freed ?p ?c ?m2) = iocbs m"
      unfolding freed_def stop_requested_def using gone by simp
    moreover have "arrays (freed ?p ?c ?m2) = arrays m"
      using n'(4,5,7) nf(4) by (simp add: freed_def stop_requested_def fun_upd_idem fun_upd_twist)
    moreover have "ctls (freed ?p ?c ?m2) = ctls m" "rings (freed ?p ?c ?m2) = rings m"
      "grefs (freed ?p ?c ?m2) = grefs m"
      using n(1) nf(1) n'(8-10) href(2) by (simp_all add: freed_def stop_requested_def fun_upd_idem)
    moreover have "blocks (freed ?p ?c ?m2) = blocks m" "cstrings (freed ?p ?c ?m2) = cstrings m"
      using n'(13,14) by (simp_all add: freed_def stop_requested_def)
    ultimately show ?thesis by (simp add: same_memory_def)
  qed
  moreover have "exc (freed ?p ?c ?m2) = None" using ok(2) by (simp add: freed_def stop_requested_def)
  ultimately show ?thesis by blast
qed

theorem new_delete_roundtrip_witness:
  "\<exists>r m1 m2. newContext sample_env 1 (int 2) empty_machine = Some (r, m1)
    \<and> deleteContext sample_env (poller_handles sample_env 40 True \<lparr>ev_obj = 42, ev_res = 0\<rparr>) r m1 = Some m2
    \<and> same_memory empty_machine m2"
proof -
  let ?c = "\<lparr>ioContext = 9000, events_ptr = 44, events_arr = [uninit_event, uninit_event], thisObject = 101,
    iocbLock = MUnlocked, pollLock = MUnlocked, iocb_ptr = 41, iocb_arr = [42, 43], queueSize = 2,
    iocbPut = 0, iocbGet = 0, used = 0\<rparr>"
  have new: "\<exists>m1. newContext sample_env 1 (int 2) empty_machine = Some (40, m1) \<and> exc m1 = None
      \<and> ctls m1 40 = Some ?c \<and> rings m1 9000 = Some sample_ring \<and> world m1 = 1"
    by (simp add: newContext_def newContext_finish_def machine_simps numeral_2_eq_2
      NewDirectByteBuffer_def uninit_control_def)
  then obtain m1 where m1: "newContext sample_env 1 (int 2) empty_machine = Some (40, m1)"
    "exc m1 = None" "ctls m1 40 = Some ?c" "rings m1 9000 = Some sample_ring" "world m1 = 1" by blast
  have ring: "has_usable_ring sample_ring" "ring_count sample_ring = 0"
    by (simp_all add: has_usable_ring_def sample_ring_def ring_count_def)
  have "\<exists>m2. deleteContext sample_env (poller_handles sample_env (next_addr empty_machine) True
      \<lparr>ev_obj = next_addr empty_machine + 2, ev_res = 0\<rparr>) 40 m1 = Some m2
    \<and> same_memory empty_machine m2 \<and> exc m2 = None"
    by (rule new_delete_roundtrip [OF empty_machine_ready sample_oom _ _ m1(1), where c = ?c and ring = sample_ring])
      (use m1 ring sample_ring_inv in \<open>simp_all add: sample_prep_def\<close>)
  with m1(1) show ?thesis by auto
qed

end
