(* ===== verification/Buffers.thy ===== *)
theory Buffers
  imports Sample
begin

section \<open>Aligned buffers\<close>

text \<open>
  The buffers for direct I/O: \<open>newAlignedBuffer\<close>, \<open>freeBuffer\<close>, \<open>memsetBuffer\<close>, and the
  one-megabyte buffer of zeros that \<open>fill\<close> writes from (\<open>verifyBuffer\<close>).
\<close>

definition ONE_MEGA :: int where "ONE_MEGA = 1048576"

text \<open>\<open>posix_memalign\<close>: an error number, or 0 and a fresh block of undefined contents \<open>junk\<close>.\<close>

definition junk_byte :: byte where "junk_byte = 0xA5"

definition posix_memalign ::
  "'w env \<Rightarrow> u64 \<Rightarrow> u64 \<Rightarrow> 'w machine \<Rightarrow> int \<times> addr \<times> 'w machine" where
  "posix_memalign env alignment nbytes m =
     (let (res, w) = env_posix_memalign env alignment nbytes (world m)
      in if res \<noteq> 0 then (res, uninit_ptr, m\<lparr>world := w\<rparr>)
         else (0, next_addr m, m\<lparr>world := w, next_addr := Suc (next_addr m),
                blocks := (blocks m)(next_addr m \<mapsto> replicate (unat nbytes) junk_byte)\<rparr>))"

text \<open>\<open>verifyBuffer\<close>: -1 when the buffer cannot be allocated.\<close>

definition verifyBuffer :: "'w env \<Rightarrow> int \<Rightarrow> 'w machine \<Rightarrow> (int \<times> 'w machine) option" where
  "verifyBuffer env alignment m = do {
     l \<leftarrow> mutex_lock (oneMegaMutex m);
     let m = m\<lparr>oneMegaMutex := l\<rparr>;
     if oneMegaBuffer m = NULL then do {
       let (res, p, m) = posix_memalign env (size_t alignment) (size_t ONE_MEGA) m;
       if res \<noteq> 0 then do {
         let m = emit (EStderr (''Could not allocate the 1 Mega Buffer for initializing files'' @ [CHR 0x0A])) m;
         l \<leftarrow> mutex_unlock (oneMegaMutex m);
         Some (-1, m\<lparr>oneMegaMutex := l\<rparr>) }
       else do {
         let m = m\<lparr>oneMegaBuffer := p\<rparr>;
         m \<leftarrow> memset0 (oneMegaBuffer m) (nat ONE_MEGA) m;
         l \<leftarrow> mutex_unlock (oneMegaMutex m);
         Some (0, m\<lparr>oneMegaMutex := l\<rparr>) } }
     else do {
       l \<leftarrow> mutex_unlock (oneMegaMutex m);
       Some (0, m\<lparr>oneMegaMutex := l\<rparr>) } }"

text \<open>\<open>newAlignedBuffer\<close>; a zero alignment divides by zero, and the least \<open>jint\<close> by -1 overflows.\<close>

definition newAlignedBuffer ::
  "'w env \<Rightarrow> int \<Rightarrow> int \<Rightarrow> 'w machine \<Rightarrow> (jobject \<times> 'w machine) option" where
  "newAlignedBuffer env nbytes alignment m =
     (if alignment = 0 \<or> alignment = -1 \<and> nbytes = - (2 ^ 31) then None
      else if c_rem nbytes alignment \<noteq> 0 then do {
        m \<leftarrow> throwRuntimeException ''Buffer size needs to be aligned to passed argument'' m;
        Some (0, m) }
      else do {
        let (result, buffer, m) = posix_memalign env (size_t alignment) (size_t nbytes) m;
        if result \<noteq> 0 then do {
          m \<leftarrow> throwRuntimeExceptionErrorNo env ''Can't allocate posix buffer:'' result m;
          Some (0, m) }
        else do {
          m \<leftarrow> memset0 buffer (unat (size_t nbytes)) m;
          Some (NewDirectByteBuffer env buffer nbytes m) } })"

definition freeBuffer :: "'w env \<Rightarrow> jobject \<Rightarrow> 'w machine \<Rightarrow> 'w machine option" where
  "freeBuffer env jbuffer m =
     (if jbuffer = 0 then throwRuntimeException ''Null pointer'' m
      else free_block (env_GetDirectBufferAddress env jbuffer (world m)) m)"

definition memsetBuffer :: "'w env \<Rightarrow> jobject \<Rightarrow> int \<Rightarrow> 'w machine \<Rightarrow> 'w machine option" where
  "memsetBuffer env jbuffer nbytes m =
     (let buffer = env_GetDirectBufferAddress env jbuffer (world m)
      in if buffer = NULL
         then throwRuntimeException
           ''Invalid Buffer used, libaio requires NativeBuffer instead of Java ByteBuffer'' m
         else memset0 buffer (unat (size_t nbytes)) m)"

subsection \<open>The buffer of zeros\<close>

lemma size_t_nat: "0 \<le> n \<Longrightarrow> n < 2 ^ 31 \<Longrightarrow> unat (size_t n) = nat n"
  by (simp add: size_t_def unat_eq_nat_uint uint_word_of_int)

lemma unat_one_mega: "unat (size_t ONE_MEGA) = nat ONE_MEGA"
  by (rule size_t_nat) (simp_all add: ONE_MEGA_def)

text \<open>The megabyte is there, is all zeros, and nobody is inside \<open>verifyBuffer\<close>.\<close>

definition mega_ok :: "'w machine \<Rightarrow> bool" where
  "mega_ok m \<longleftrightarrow> oneMegaBuffer m \<noteq> NULL \<and> oneMegaMutex m = MUnlocked
     \<and> blocks m (oneMegaBuffer m) = Some (replicate (nat ONE_MEGA) 0)"

lemma mega_ok_frame [simp]:
  "mega_ok (m\<lparr>world := w\<rparr>) = mega_ok m" "mega_ok (m\<lparr>log := l\<rparr>) = mega_ok m"
  "mega_ok (m\<lparr>errno := n\<rparr>) = mega_ok m" "mega_ok (m\<lparr>exc := e\<rparr>) = mega_ok m"
  by (simp_all add: mega_ok_def)

lemma verifyBuffer_again:
  assumes "mega_ok m"
  shows "verifyBuffer env alignment m = Some (0, m)"
  using assms by (cases m) (simp add: verifyBuffer_def mega_ok_def)

text \<open>The first call: the buffer is made, or there is no memory for it.\<close>

lemma verifyBuffer_first:
  assumes "oneMegaBuffer m = NULL" and "oneMegaMutex m = MUnlocked" and "heap_ok m"
    and pm: "env_posix_memalign env (size_t alignment) (size_t ONE_MEGA) (world m) = (res, w)"
  shows "verifyBuffer env alignment m = Some (if res = 0
    then (0, m\<lparr>world := w, next_addr := Suc (next_addr m), oneMegaBuffer := next_addr m,
      blocks := (blocks m)(next_addr m \<mapsto> replicate (nat ONE_MEGA) 0)\<rparr>)
    else (-1, m\<lparr>world := w, log := log m @
      [EStderr (''Could not allocate the 1 Mega Buffer for initializing files'' @ [CHR 0x0A])]\<rparr>))"
  using assms
  by (cases m) (simp add: verifyBuffer_def posix_memalign_def memset0_def emit_def unat_one_mega Let_def)

subsection \<open>Properties of buffers\<close>

text \<open>The buffer of zeros is allocated at most once, whatever calls of \<open>fill\<close> follow. The first
  \<open>verifyBuffer\<close> that finds memory makes a megabyte of zeros with the alignment it was given;
  every later call, with any alignment, finds it and changes nothing.\<close>

theorem verifyBuffer_once:
  assumes "oneMegaBuffer m = NULL" and "oneMegaMutex m = MUnlocked" and "heap_ok m"
    and "env_posix_memalign env (size_t alignment) (size_t ONE_MEGA) (world m) = (0, w)"
  shows "\<exists>m'. verifyBuffer env alignment m = Some (0, m') \<and> mega_ok m'
    \<and> oneMegaBuffer m' = next_addr m \<and> blocks m (next_addr m) = None
    \<and> (\<forall>other_alignment. verifyBuffer env other_alignment m' = Some (0, m'))"
proof -
  let ?m = "m\<lparr>world := w, next_addr := Suc (next_addr m), oneMegaBuffer := next_addr m,
      blocks := (blocks m)(next_addr m \<mapsto> replicate (nat ONE_MEGA) 0)\<rparr>"
  have "mega_ok ?m" using assms(2) heap_ok_next [OF assms(3)] by (simp add: mega_ok_def)
  with verifyBuffer_first [OF assms] heap_ok_next [OF assms(3)] show ?thesis
    by (auto simp: verifyBuffer_again unallocated_def)
qed

theorem verifyBuffer_once_witness:
  "\<exists>m'. verifyBuffer sample_env 4096 (sample_machine 0 1) = Some (0, m') \<and> oneMegaBuffer m' = 40
    \<and> verifyBuffer sample_env 0 m' = Some (0, m')"
proof -
  have "heap_ok (sample_machine 0 1)" using sample_ready by (simp add: ready_def)
  moreover have "size_t 4096 \<noteq> 0" by (simp add: size_t_def)
  ultimately show ?thesis
    using verifyBuffer_once [of "sample_machine 0 1" sample_env 4096 1] by auto
qed

text \<open>C34: \<open>newAlignedBuffer\<close>, on every branch and for every size, negative ones included. A size that
  is no multiple of the alignment raises \<open>RuntimeException\<close> and allocates nothing; so does a
  refusal of \<open>posix_memalign\<close> (the usual answer to a negative size, which \<open>size_t\<close> makes huge), with
  the text of the error and without leaking it. Otherwise a fresh block of \<open>(size_t)size\<close> bytes is
  allocated and set to zero (a comment in the source calls it non initialized data) and the result
  is what \<open>NewDirectByteBuffer\<close> gives for it: a buffer over the block, or, when the JVM cannot make
  one, null, and then the block stays allocated though nothing refers to it any more.\<close>

theorem newAlignedBuffer_result:
  assumes "ready m" and "alignment \<noteq> 0" and "\<not> (alignment = -1 \<and> n = - (2 ^ 31))"
    and "env_posix_memalign env (size_t alignment) (size_t n) (world m) = (res, w)"
    and "env_NewDirectByteBuffer env (next_addr m) n w = (buf, oom, w')"
  shows "newAlignedBuffer env n alignment m = Some (
    if c_rem n alignment \<noteq> 0
    then (0, m\<lparr>exc := Some (RuntimeException (Some ''Buffer size needs to be aligned to passed argument''))\<rparr>)
    else if res \<noteq> 0
    then (0, raised env RuntimeException ''Can't allocate posix buffer:'' res (m\<lparr>world := w\<rparr>))
    else (buf, m\<lparr>next_addr := Suc (next_addr m),
        blocks := (blocks m)(next_addr m \<mapsto> replicate (unat (size_t n)) 0),
        exc := (if buf = 0 \<and> oom then Some OutOfMemoryError else exc m), world := w'\<rparr>))"
proof -
  have "ready (m\<lparr>world := w\<rparr>)" using assms(1) by simp
  note throw = throwRuntimeExceptionErrorNo_eq [OF this]
  from assms(1) have "runtimeExceptionClass m \<noteq> 0" by (simp add: ready_def classes_loaded_def)
  with assms throw show ?thesis
    by (cases m) (auto simp: newAlignedBuffer_def posix_memalign_def throwRuntimeException_def
      ThrowNew_def memset0_def NewDirectByteBuffer_def)
qed

text \<open>A direct buffer of 4096 bytes, and the buffer of size -4096 that \<open>LibaioTest\<close> asks for.\<close>

theorem newAlignedBuffer_result_witness:
  "(\<exists>m'. newAlignedBuffer sample_env 4096 512 (sample_machine 0 1) = Some (40, m')
      \<and> blocks m' 40 = Some (replicate 4096 0))
    \<and> (\<exists>m' t. newAlignedBuffer (sample_env\<lparr>env_posix_memalign := \<lambda>a n w. (12, w)\<rparr>) (-4096) 4096 (sample_machine 0 1)
        = Some (0, m') \<and> exc m' = Some (RuntimeException t) \<and> blocks m' = Map.empty)"
proof -
  have "size_t 512 \<noteq> 0" "c_rem 4096 512 = 0" "c_rem (-4096) 4096 = 0" "unat (size_t 4096) = 4096"
    by (simp_all add: size_t_def c_rem_nonneg c_rem_def c_div_def)
  then show ?thesis
    using newAlignedBuffer_result [OF sample_ready, of 512 4096 sample_env 0 1 0 1 40 False 1]
      newAlignedBuffer_result [OF sample_ready, of 4096 "-4096" "sample_env\<lparr>env_posix_memalign := \<lambda>a n w. (12, w)\<rparr>"
        0 1 12 1 40 False 1]
      raised_exc [of "sample_env\<lparr>env_posix_memalign := \<lambda>a n w. (12, w)\<rparr>" RuntimeException
        "''Can't allocate posix buffer:''" 12 "(sample_machine 0 1)\<lparr>world := 1\<rparr>"]
    by auto
qed

text \<open>A buffer that is allocated and freed leaves the heap as it was; clearing it in between
  with \<open>memsetBuffer\<close> zeroes the bytes asked for, leaves the others alone, and is undefined
  beyond its end.\<close>

theorem buffer_lifecycle:
  assumes "blocks m p = Some bs" and "p \<noteq> NULL" and "jbuffer \<noteq> 0"
    and "env_GetDirectBufferAddress env jbuffer (world m) = p" and "0 \<le> n" and "n < 2 ^ 31"
  shows "memsetBuffer env jbuffer n m = (if nat n \<le> length bs
      then Some (m\<lparr>blocks := (blocks m)(p \<mapsto> replicate (nat n) 0 @ drop (nat n) bs)\<rparr>) else None)
    \<and> freeBuffer env jbuffer m = Some (m\<lparr>blocks := (blocks m)(p := None)\<rparr>)
    \<and> (\<forall>m'. memsetBuffer env jbuffer n m = Some m' \<longrightarrow> freeBuffer env jbuffer m' = freeBuffer env jbuffer m)"
  using assms by (auto simp: memsetBuffer_def freeBuffer_def memset0_def free_block_def size_t_nat Let_def)

theorem buffer_lifecycle_witness:
  "\<exists>m'. memsetBuffer sample_env 50 2 ((sample_machine 0 1)\<lparr>next_addr := 60, blocks := [50 \<mapsto> [1, 2, 3]]\<rparr>) = Some m'
    \<and> blocks m' 50 = Some [0, 0, 3]"
  using buffer_lifecycle [of "(sample_machine 0 1)\<lparr>next_addr := 60, blocks := [50 \<mapsto> [1, 2, 3]]\<rparr>"
      50 "[1, 2, 3]" 50 sample_env 2]
  by (simp add: numeral_2_eq_2)

end
