(* ===== verification/Files.thy ===== *)
theory Files
  imports Buffers
begin

section \<open>Files\<close>

text \<open>
  The entry points that work on file descriptors: \<open>open\<close>, \<open>close\<close>, \<open>lock\<close>, \<open>getSize\<close>,
  \<open>getBlockSizeFD\<close>, \<open>getBlockSize\<close>, \<open>fallocate\<close> and \<open>fill\<close>. The system calls are
  parameters; each leaves a line in the log with its result.
\<close>

definition lock_file :: "'w env \<Rightarrow> int \<Rightarrow> 'w machine \<Rightarrow> bool \<times> 'w machine" where
  "lock_file env handle m =
     (let (res, w) = env_flock env handle (world m) in (res = 0, m\<lparr>world := w\<rparr>))"

definition close_file :: "'w env \<Rightarrow> int \<Rightarrow> 'w machine \<Rightarrow> 'w machine option" where
  "close_file env fd m =
     (let (res, err, w) = env_close env fd (world m);
          m = emit (EClose fd) (m\<lparr>world := w, errno := (if res < 0 then err else errno m)\<rparr>)
      in if res < 0 then throwIOExceptionErrorNo env ''Error closing file:'' (errno m) m
         else Some m)"

definition GetStringUTFChars ::
  "'w env \<Rightarrow> jstring \<Rightarrow> 'w machine \<Rightarrow> string option \<times> 'w machine" where
  "GetStringUTFChars env s m =
     (let (r, w) = env_GetStringUTFChars env s (world m)
      in (r, m\<lparr>world := w, utf_pins := (if r = None then utf_pins m else Suc (utf_pins m))\<rparr>))"

definition ReleaseStringUTFChars :: "string option \<Rightarrow> 'w machine \<Rightarrow> 'w machine" where
  "ReleaseStringUTFChars f_path m =
     (if f_path = None then m else m\<lparr>utf_pins := utf_pins m - 1\<rparr>)"

definition open_file ::
  "'w env \<Rightarrow> jstring \<Rightarrow> bool \<Rightarrow> 'w machine \<Rightarrow> (int \<times> 'w machine) option" where
  "open_file env path direct m =
     (let (f_path, m) = GetStringUTFChars env path m;
          (res, err, w) = env_open env f_path direct (world m);
          m = emit (EOpen path direct res)
                (m\<lparr>world := w, errno := (if res < 0 then err else errno m)\<rparr>);
          m = ReleaseStringUTFChars f_path m
      in if res < 0 then do {
           m \<leftarrow> throwIOExceptionErrorNo env ''Cannot open file:'' (errno m) m;
           Some (res, m) }
         else Some (res, m))"

definition getSize :: "'w env \<Rightarrow> int \<Rightarrow> 'w machine \<Rightarrow> (int \<times> 'w machine) option" where
  "getSize env fd m =
     (let (res, err, statBuffer, w) = env_fstat env fd (world m);
          m = m\<lparr>world := w, errno := (if res < 0 then err else errno m)\<rparr>
      in if res < 0 then do {
           m \<leftarrow> throwIOExceptionErrorNo env ''Cannot determine file size:'' (errno m) m;
           Some (-1, m) }
         else Some (st_size statBuffer, m))"

definition getBlockSizeFD :: "'w env \<Rightarrow> int \<Rightarrow> 'w machine \<Rightarrow> (int \<times> 'w machine) option" where
  "getBlockSizeFD env fd m =
     (let (res, err, statBuffer, w) = env_fstat env fd (world m);
          m = m\<lparr>world := w, errno := (if res < 0 then err else errno m)\<rparr>
      in if res < 0 then do {
           m \<leftarrow> throwIOExceptionErrorNo env ''Cannot determine file size:'' (errno m) m;
           Some (-1, m) }
         else Some (to_int32 (st_blksize statBuffer), m))"

text \<open>\<open>getBlockSize\<close>: on the error path the string is not released.\<close>

definition getBlockSize :: "'w env \<Rightarrow> jstring \<Rightarrow> 'w machine \<Rightarrow> (int \<times> 'w machine) option" where
  "getBlockSize env path m =
     (let (f_path, m) = GetStringUTFChars env path m;
          (res, err, statBuffer, w) = env_stat env f_path (world m);
          m = m\<lparr>world := w, errno := (if res < 0 then err else errno m)\<rparr>
      in if res < 0 then do {
           m \<leftarrow> throwIOExceptionErrorNo env ''Cannot determine file size:'' (errno m) m;
           Some (-1, m) }
         else do {
           let m = ReleaseStringUTFChars f_path m;
           Some (to_int32 (st_blksize statBuffer), m) })"

definition lseek0 :: "'w env \<Rightarrow> int \<Rightarrow> 'w machine \<Rightarrow> 'w machine" where
  [machine_simps]: "lseek0 env fd m = emit (ELseek fd) (m\<lparr>world := env_lseek env fd (world m)\<rparr>)"

definition fallocate_file :: "'w env \<Rightarrow> int \<Rightarrow> int \<Rightarrow> 'w machine \<Rightarrow> 'w machine option" where
  "fallocate_file env fd nbytes m = do {
     let (res, err, w) = env_fallocate env fd nbytes (world m);
     let m = emit (EFallocate fd nbytes)
               (m\<lparr>world := w, errno := (if res < 0 then err else errno m)\<rparr>);
     m \<leftarrow> (if res < 0 then throwIOExceptionErrorNo env ''Could not preallocate file'' (errno m) m
           else Some m);
     let m = emit (EFsync fd) (m\<lparr>world := env_fsync env fd (world m)\<rparr>);
     Some (lseek0 env fd m) }"

subsection \<open>fill\<close>

text \<open>
  \<open>write(fd, oneMegaBuffer, n)\<close>: the kernel checks the buffer, so an unreadable one is an
  error of the call (\<open>EFAULT\<close>) and no fault of the process; \<open>None\<close> tells it so.
\<close>

definition write_mega :: "'w env \<Rightarrow> int \<Rightarrow> int \<Rightarrow> 'w machine \<Rightarrow> int \<times> 'w machine" where
  "write_mega env fd n m =
     (let buf = (case blocks m (oneMegaBuffer m) of None \<Rightarrow> None
                 | Some bs \<Rightarrow> if unat (size_t n) \<le> length bs then Some (take (unat (size_t n)) bs) else None);
          (res, err, w) = env_write env fd buf (unat (size_t n)) (world m)
      in (res, emit (EWrite fd (unat (size_t n)) res)
                (m\<lparr>world := w, errno := (if res < 0 then err else errno m)\<rparr>)))"

text \<open>The loop over the megabytes: whether all writes went well.\<close>

fun fill_loop :: "'w env \<Rightarrow> int \<Rightarrow> nat \<Rightarrow> 'w machine \<Rightarrow> bool \<times> 'w machine" where
  "fill_loop env fd 0 m = (True, m)"
| "fill_loop env fd (Suc k) m =
     (let (res, m) = write_mega env fd ONE_MEGA m
      in if res < 0 then (False, m) else fill_loop env fd k m)"

definition fill :: "'w env \<Rightarrow> int \<Rightarrow> int \<Rightarrow> int \<Rightarrow> 'w machine \<Rightarrow> 'w machine option" where
  "fill env fd alignment nbytes m = do {
     let blocks = to_int32 (c_div nbytes ONE_MEGA);
     let rest = to_int32 (c_rem nbytes ONE_MEGA);
     (_, m) \<leftarrow> verifyBuffer env alignment m;
     let m = lseek0 env fd m;
     let (ok, m) = fill_loop env fd (nat blocks) m;
     if \<not> ok then throwIOException ''Cannot initialize file'' m
     else if rest \<noteq> 0 then do {
       let (res, m) = write_mega env fd rest m;
       if res < 0 then throwIOException ''Cannot initialize file with final rest'' m
       else Some (lseek0 env fd m) }
     else Some (lseek0 env fd m) }"

subsection \<open>What fill writes\<close>

text \<open>The specification: one \<open>write\<close> of zeros for each size in a list, while none fails.\<close>

fun write_zeros :: "'w env \<Rightarrow> int \<Rightarrow> nat list \<Rightarrow> 'w \<Rightarrow> effect list \<times> bool \<times> 'w" where
  "write_zeros env fd [] w = ([], True, w)"
| "write_zeros env fd (n # ns) w =
     (let (res, err, w) = env_write env fd (Some (replicate n 0)) n w
      in if res < 0 then ([EWrite fd n res], False, w)
         else (let (l, ok, w) = write_zeros env fd ns w in (EWrite fd n res # l, ok, w)))"

text \<open>The sizes: the whole megabytes, then what is left.\<close>

definition fill_sizes :: "int \<Rightarrow> nat list" where
  "fill_sizes nbytes = replicate (nat (nbytes div ONE_MEGA)) (nat ONE_MEGA)
     @ (if nbytes mod ONE_MEGA = 0 then [] else [nat (nbytes mod ONE_MEGA)])"

lemma sum_fill_sizes: "0 \<le> nbytes \<Longrightarrow> int (sum_list (fill_sizes nbytes)) = nbytes"
  using mult_div_mod_eq [of ONE_MEGA nbytes]
  by (auto simp: fill_sizes_def sum_list_replicate ONE_MEGA_def pos_imp_zdiv_nonneg_iff algebra_simps)

text \<open>What a log of writes asked for, and what it was told was written.\<close>

definition write_size :: "effect \<Rightarrow> nat" where
  "write_size e = (case e of EWrite fd k r \<Rightarrow> k | _ \<Rightarrow> 0)"

definition write_result :: "effect \<Rightarrow> int" where
  "write_result e = (case e of EWrite fd k r \<Rightarrow> r | _ \<Rightarrow> 0)"

definition bytes_written :: "effect list \<Rightarrow> int" where
  "bytes_written l = sum_list (map write_result l)"

definition short_write :: "effect \<Rightarrow> bool" where
  "short_write e \<longleftrightarrow> write_result e < int (write_size e)"

lemma write_zeros_log:
  assumes "write_zeros env fd ns w = (l, ok, w')" and "\<And>buf k v. fst (env_write env fd buf k v) \<le> int k"
  shows "map write_size l = take (length l) ns" and "ok \<Longrightarrow> length l = length ns"
    and "\<And>e. e \<in> set l \<Longrightarrow> write_result e \<le> int (write_size e)"
proof -
  have "map write_size l = take (length l) ns \<and> (ok \<longrightarrow> length l = length ns)
    \<and> (\<forall>e \<in> set l. write_result e \<le> int (write_size e))"
    using assms(1)
  proof (induction ns arbitrary: w l)
    case (Cons n ns)
    obtain res err w1 where wr: "env_write env fd (Some (replicate n 0)) n w = (res, err, w1)"
      by (metis surj_pair)
    with assms(2) have le: "res \<le> int n" by (metis fst_conv)
    show ?case
    proof (cases "res < 0")
      case True
      with Cons.prems wr le show ?thesis by (auto simp: write_size_def write_result_def)
    next
      case False
      with Cons.prems wr obtain l' where "write_zeros env fd ns w1 = (l', ok, w')" "l = EWrite fd n res # l'"
        by (auto split: prod.splits)
      with Cons.IH le show ?thesis by (auto simp: write_size_def write_result_def)
    qed
  qed simp
  then show "map write_size l = take (length l) ns" and "ok \<Longrightarrow> length l = length ns"
    and "\<And>e. e \<in> set l \<Longrightarrow> write_result e \<le> int (write_size e)" by blast+
qed

lemma bytes_written_le:
  assumes "\<And>e. e \<in> set l \<Longrightarrow> write_result e \<le> int (write_size e)"
  shows "bytes_written l \<le> int (sum_list (map write_size l))
    \<and> (bytes_written l = int (sum_list (map write_size l)) \<longleftrightarrow> (\<forall>e \<in> set l. \<not> short_write e))"
  using assms
proof (induction l)
  case (Cons e l)
  from Cons.prems have e: "write_result e \<le> int (write_size e)" by simp
  have ih: "bytes_written l \<le> int (sum_list (map write_size l))"
    "bytes_written l = int (sum_list (map write_size l)) \<longleftrightarrow> (\<forall>e \<in> set l. \<not> short_write e)"
    using Cons by simp_all
  have sum: "bytes_written (e # l) = write_result e + bytes_written l" by (simp add: bytes_written_def)
  show ?case
  proof (cases "\<forall>e \<in> set l. \<not> short_write e")
    case True
    with ih(2) have "bytes_written l = int (sum_list (map write_size l))" by blast
    with True e sum show ?thesis by (auto simp: short_write_def [of e])
  next
    case False
    with ih have "bytes_written l < int (sum_list (map write_size l))" by force
    with False e sum show ?thesis by auto
  qed
qed (simp add: bytes_written_def)

lemma write_mega_zeros:
  assumes "mega_ok m" and "0 \<le> n" and "n \<le> ONE_MEGA"
    and "env_write env fd (Some (replicate (nat n) 0)) (nat n) (world m) = (res, err, w)"
  shows "write_mega env fd n m = (res, m\<lparr>world := w, errno := (if res < 0 then err else errno m),
    log := log m @ [EWrite fd (nat n) res]\<rparr>)"
proof -
  have "unat (size_t n) = nat n" using assms(2,3) by (intro size_t_nat) (simp_all add: ONE_MEGA_def)
  moreover have "take (nat n) (replicate (nat ONE_MEGA) (0::byte)) = replicate (nat n) 0"
    using assms(3) by (simp add: min_absorb1 nat_mono)
  ultimately show ?thesis
    using assms by (auto simp: write_mega_def mega_ok_def emit_def nat_mono)
qed

lemma fill_loop_zeros:
  assumes "mega_ok m"
    and "write_zeros env fd (replicate k (nat ONE_MEGA)) (world m) = (l, ok, w)"
  shows "\<exists>e. fill_loop env fd k m = (ok, m\<lparr>world := w, errno := e, log := log m @ l\<rparr>)"
  using assms
proof (induction k arbitrary: m l)
  case 0
  then show ?case by (intro exI [of _ "errno m"]) simp
next
  case (Suc k)
  obtain res err w1 where wr: "env_write env fd (Some (replicate (nat ONE_MEGA) 0)) (nat ONE_MEGA) (world m)
      = (res, err, w1)" by (metis surj_pair)
  have step: "write_mega env fd ONE_MEGA m = (res, m\<lparr>world := w1,
      errno := (if res < 0 then err else errno m), log := log m @ [EWrite fd (nat ONE_MEGA) res]\<rparr>)"
    by (rule write_mega_zeros [OF Suc.prems(1) _ _ wr]) (simp_all add: ONE_MEGA_def)
  show ?case
  proof (cases "res < 0")
    case True
    with Suc.prems(2) wr step show ?thesis by auto
  next
    case False
    obtain l' where l': "write_zeros env fd (replicate k (nat ONE_MEGA)) w1 = (l', ok, w)"
      and l: "l = EWrite fd (nat ONE_MEGA) res # l'"
      using Suc.prems(2) wr False by (auto split: prod.splits)
    let ?m = "m\<lparr>world := w1, errno := (if res < 0 then err else errno m),
      log := log m @ [EWrite fd (nat ONE_MEGA) res]\<rparr>"
    from Suc.IH [of ?m l'] Suc.prems(1) l' obtain e where
      "fill_loop env fd k ?m = (ok, ?m\<lparr>world := w, errno := e, log := log ?m @ l'\<rparr>)" by auto
    with step False l show ?thesis by (cases m) auto
  qed
qed

lemma write_zeros_append:
  "write_zeros env fd (ns @ ks) w = (case write_zeros env fd ns w of
     (l1, True, w1) \<Rightarrow> (case write_zeros env fd ks w1 of (l2, ok, w2) \<Rightarrow> (l1 @ l2, ok, w2))
   | (l1, False, w1) \<Rightarrow> (l1, False, w1))"
  by (induction ns arbitrary: w) (auto split: prod.splits bool.splits)

lemma fill_split:
  assumes "0 \<le> n" and "n < 2 ^ 51"
  shows "to_int32 (c_div n ONE_MEGA) = n div ONE_MEGA" and "to_int32 (c_rem n ONE_MEGA) = n mod ONE_MEGA"
    and "0 \<le> n mod ONE_MEGA" and "n mod ONE_MEGA \<le> ONE_MEGA"
proof -
  have "n div 1048576 \<le> (2 ^ 51 - 1) div 1048576" using assms(2) by (intro zdiv_mono1) simp_all
  then have "n div 1048576 < 2 ^ 31" by simp
  then show "to_int32 (c_div n ONE_MEGA) = n div ONE_MEGA"
    using assms(1) by (simp add: c_div_nonneg ONE_MEGA_def to_int32_id pos_imp_zdiv_nonneg_iff)
  have "0 \<le> n mod 1048576" "n mod 1048576 < 1048576" by simp_all
  then show "to_int32 (c_rem n ONE_MEGA) = n mod ONE_MEGA" "0 \<le> n mod ONE_MEGA" "n mod ONE_MEGA \<le> ONE_MEGA"
    using assms(1) by (simp_all add: c_rem_nonneg ONE_MEGA_def to_int32_id)
qed

subsection \<open>Properties of the file operations\<close>

text \<open>C22: what \<open>fill\<close> writes. For every size below \<open>2 ^ 51\<close> it goes to the start of the file and asks
  for the whole megabytes and then the rest, each from the buffer of zeros, so that the requests
  add up to the size; when none fails it goes back to the start and returns normally, and at the
  first that fails it stops with an \<open>IOException\<close> pending. What lands in the file is what \<open>write\<close>
  reports: never more than the size, and exactly the size if and only if no write was short. A short
  write is neither continued nor reported: whether \<open>fill\<close> returns normally depends on negative
  results alone.\<close>

theorem fill_requests_zeros:
  assumes vb: "verifyBuffer env alignment m = Some (v, mb)" and mega: "mega_ok mb"
    and cls: "ioExceptionClass mb \<noteq> 0" and n: "0 \<le> n" "n < 2 ^ 51"
    and zeros: "write_zeros env fd (fill_sizes n) (env_lseek env fd (world mb)) = (l, ok, w)"
    and reports: "\<And>buf k v. fst (env_write env fd buf k v) \<le> int k"
  shows "int (sum_list (fill_sizes n)) = n \<and> map write_size l = take (length l) (fill_sizes n)
    \<and> (ok \<longrightarrow> map write_size l = fill_sizes n \<and> bytes_written l \<le> n
         \<and> (bytes_written l = n \<longleftrightarrow> (\<forall>e \<in> set l. \<not> short_write e)))
    \<and> (\<exists>m'. fill env fd alignment n m = Some m' \<and>
    (if ok then exc m' = exc mb \<and> log m' = log mb @ [ELseek fd] @ l @ [ELseek fd] \<and> world m' = env_lseek env fd w
     else (\<exists>text. exc m' = Some (IOException text)) \<and> log m' = log mb @ [ELseek fd] @ l \<and> world m' = w))"
proof -
  let ?m = "lseek0 env fd mb" and ?q = "nat (n div ONE_MEGA)" and ?r = "n mod ONE_MEGA"
  note split = fill_split [OF n]
  have mega': "mega_ok ?m" using mega by (simp add: lseek0_def emit_def)
  obtain l1 ok1 w1 where z1: "write_zeros env fd (replicate ?q (nat ONE_MEGA)) (world ?m) = (l1, ok1, w1)"
    by (metis surj_pair)
  obtain e where loop: "fill_loop env fd ?q ?m = (ok1, ?m\<lparr>world := w1, errno := e, log := log ?m @ l1\<rparr>)"
    using fill_loop_zeros [OF mega' z1] by blast
  let ?m1 = "?m\<lparr>world := w1, errno := e, log := log ?m @ l1\<rparr>"
  have start: "fill env fd alignment n m =
      (if \<not> ok1 then throwIOException ''Cannot initialize file'' ?m1
       else if ?r \<noteq> 0 then do {
         let (res, m) = write_mega env fd ?r ?m1;
         if res < 0 then throwIOException ''Cannot initialize file with final rest'' m
         else Some (lseek0 env fd m) }
       else Some (lseek0 env fd ?m1))"
    using vb loop by (simp add: fill_def split)
  have world: "world ?m = env_lseek env fd (world mb)" "log ?m = log mb @ [ELseek fd]"
    "exc ?m = exc mb" "ioExceptionClass ?m \<noteq> 0"
    using cls by (simp_all add: lseek0_def emit_def)
  note zeros' = zeros [folded world(1), unfolded fill_sizes_def write_zeros_append z1]
  obtain res err w2 where wr: "env_write env fd (Some (replicate (nat ?r) 0)) (nat ?r) w1 = (res, err, w2)"
    by (metis surj_pair)
  have rest: "write_mega env fd ?r ?m1 = (res, ?m1\<lparr>world := w2,
      errno := (if res < 0 then err else e), log := log mb @ [ELseek fd] @ l1 @ [EWrite fd (nat ?r) res]\<rparr>)"
    using write_mega_zeros [of ?m1 ?r env fd res err w2] mega' split(3,4) wr world by simp
  have "\<exists>m'. fill env fd alignment n m = Some m' \<and>
    (if ok then exc m' = exc mb \<and> log m' = log mb @ [ELseek fd] @ l @ [ELseek fd] \<and> world m' = env_lseek env fd w
     else (\<exists>text. exc m' = Some (IOException text)) \<and> log m' = log mb @ [ELseek fd] @ l \<and> world m' = w)"
    unfolding start rest using zeros' wr world
    by (cases ok1; cases "?r = 0"; cases "res < 0")
      (auto simp: throwIOException_def ThrowNew_def lseek0_def emit_def)
  moreover have "ok \<longrightarrow> map write_size l = fill_sizes n"
    using write_zeros_log [OF zeros reports] by auto
  moreover have "int (sum_list (fill_sizes n)) = n" by (rule sum_fill_sizes [OF n(1)])
  moreover have "bytes_written l \<le> int (sum_list (map write_size l))
      \<and> (bytes_written l = int (sum_list (map write_size l)) \<longleftrightarrow> (\<forall>e \<in> set l. \<not> short_write e))"
    by (rule bytes_written_le, rule write_zeros_log(3) [OF zeros reports])
  ultimately show ?thesis using write_zeros_log(1) [OF zeros reports] by auto
qed

lemma sample_mega: "verifyBuffer env 4096 ((sample_machine 0 1)\<lparr>oneMegaBuffer := 50,
    blocks := [50 \<mapsto> replicate (nat ONE_MEGA) 0]\<rparr>) = Some (0, (sample_machine 0 1)\<lparr>oneMegaBuffer := 50,
    blocks := [50 \<mapsto> replicate (nat ONE_MEGA) 0]\<rparr>)"
  by (rule verifyBuffer_again) (simp add: mega_ok_def)

text \<open>A size of one megabyte and four bytes, with a \<open>write\<close> that writes what it is asked for, and with one
  that never writes anything: \<open>fill\<close> returns normally in both worlds.\<close>

theorem fill_requests_zeros_witness:
  "(\<exists>m'. fill sample_env 6 4096 1048580 ((sample_machine 0 1)\<lparr>oneMegaBuffer := 50,
      blocks := [50 \<mapsto> replicate (nat ONE_MEGA) 0]\<rparr>) = Some m'
    \<and> log m' = [ELseek 6, EWrite 6 1048576 1048576, EWrite 6 4 4, ELseek 6])
   \<and> (\<exists>m'. fill (sample_env\<lparr>env_write := \<lambda>fd buf n w. (0, 0, w)\<rparr>) 6 4096 1048580 ((sample_machine 0 1)\<lparr>oneMegaBuffer := 50,
      blocks := [50 \<mapsto> replicate (nat ONE_MEGA) 0]\<rparr>) = Some m'
    \<and> exc m' = None \<and> log m' = [ELseek 6, EWrite 6 1048576 0, EWrite 6 4 0, ELseek 6])"
proof -
  let ?idle = "sample_env\<lparr>env_write := \<lambda>fd buf n w. (0, 0, w)\<rparr>"
  have sizes: "fill_sizes 1048580 = [nat ONE_MEGA, 4]" by (simp add: fill_sizes_def ONE_MEGA_def)
  have zeros: "write_zeros sample_env 6 (fill_sizes 1048580) 1
      = ([EWrite 6 1048576 1048576, EWrite 6 4 4], True, 1)"
    "write_zeros ?idle 6 (fill_sizes 1048580) 1 = ([EWrite 6 1048576 0, EWrite 6 4 0], True, 1)"
    unfolding sizes by (simp_all add: ONE_MEGA_def)
  let ?m = "(sample_machine 0 1)\<lparr>oneMegaBuffer := 50, blocks := [50 \<mapsto> replicate (nat ONE_MEGA) 0]\<rparr>"
  have mega: "mega_ok ?m" by (simp add: mega_ok_def)
  have reports: "fst (env_write sample_env 6 buf k v) \<le> int k" for buf k v by simp
  show ?thesis
  proof (intro conjI)
    show "\<exists>m'. fill sample_env 6 4096 1048580 ?m = Some m'
        \<and> log m' = [ELseek 6, EWrite 6 1048576 1048576, EWrite 6 4 4, ELseek 6]"
      using fill_requests_zeros [OF sample_mega mega _ _ _ _ reports, of 1048580
        "[EWrite 6 1048576 1048576, EWrite 6 4 4]" True 1] zeros(1) by auto
    show "\<exists>m'. fill ?idle 6 4096 1048580 ?m = Some m' \<and> exc m' = None
        \<and> log m' = [ELseek 6, EWrite 6 1048576 0, EWrite 6 4 0, ELseek 6]"
      using fill_requests_zeros [OF sample_mega mega, of 1048580 ?idle 6
        "[EWrite 6 1048576 0, EWrite 6 4 0]" True 1] zeros(2) by auto
  qed
qed

text \<open>With no buffer the first write, whose count is never 0, fails.\<close>

lemma fill_null_buffer:
  assumes "oneMegaBuffer m = NULL" and "oneMegaMutex m = MUnlocked" and "heap_ok m"
    and "ioExceptionClass m \<noteq> 0"
    and "env_posix_memalign env (size_t alignment) (size_t ONE_MEGA) (world m) = (res, w)" and "res \<noteq> 0"
    and "\<And>k v. 0 < k \<Longrightarrow> fst (env_write env fd None k v) < 0" and "0 < n" and "n < 2 ^ 51"
  shows "\<exists>m' text. fill env fd alignment n m = Some m' \<and> exc m' = Some (IOException text)
    \<and> oneMegaBuffer m' = NULL \<and> blocks m' = blocks m"
proof -
  let ?mb = "m\<lparr>world := w, log := log m @
      [EStderr (''Could not allocate the 1 Mega Buffer for initializing files'' @ [CHR 0x0A])]\<rparr>"
  let ?m = "lseek0 env fd ?mb"
  have vb: "verifyBuffer env alignment m = Some (-1, ?mb)"
    using verifyBuffer_first [OF assms(1-3,5)] assms(6) by simp
  have none: "blocks ?m (oneMegaBuffer ?m) = None"
    using heap_ok_null [OF assms(3)] assms(1) by (simp add: lseek0_def emit_def unallocated_def)
  have fails: "\<exists>m1 res. write_mega env fd k ?m = (res, m1) \<and> res < 0 \<and> ioExceptionClass m1 \<noteq> 0
      \<and> oneMegaBuffer m1 = NULL \<and> blocks m1 = blocks m" if k: "0 < k" "k \<le> ONE_MEGA" for k
  proof -
    have "unat (size_t k) = nat k" using k by (intro size_t_nat) (simp_all add: ONE_MEGA_def)
    with k have "0 < unat (size_t k)" by simp
    obtain res err w1 where wr: "env_write env fd None (unat (size_t k)) (world ?m) = (res, err, w1)"
      by (metis surj_pair)
    with assms(7) [OF \<open>0 < unat (size_t k)\<close>, of "world ?m"] have "res < 0" by simp
    with none assms(1,4) wr show ?thesis by (simp add: write_mega_def emit_def lseek0_def)
  qed
  obtain m1 r1 where f1: "write_mega env fd ONE_MEGA ?m = (r1, m1)" "r1 < 0" "ioExceptionClass m1 \<noteq> 0"
    "oneMegaBuffer m1 = NULL" "blocks m1 = blocks m" using fails [of ONE_MEGA] by (auto simp: ONE_MEGA_def)
  have "0 \<le> n" using assms(8) by simp
  note split = fill_split [OF this assms(9)]
  show ?thesis
  proof (cases "nat (n div ONE_MEGA)")
    case 0
    then have "n mod ONE_MEGA \<noteq> 0"
      using assms(8) by (auto simp: ONE_MEGA_def zdiv_eq_0_iff dest: zmod_trivial_iff [THEN iffD2])
    with split(3,4) obtain m2 r2 where f2: "write_mega env fd (n mod ONE_MEGA) ?m = (r2, m2)" "r2 < 0"
      "ioExceptionClass m2 \<noteq> 0" "oneMegaBuffer m2 = NULL" "blocks m2 = blocks m"
      using fails [of "n mod ONE_MEGA"] by auto
    with \<open>n mod ONE_MEGA \<noteq> 0\<close> 0 vb show ?thesis
      by (auto simp: fill_def split throwIOException_def ThrowNew_def)
  next
    case (Suc k)
    with f1 vb show ?thesis
      by (auto simp: fill_def split throwIOException_def ThrowNew_def)
  qed
qed

text \<open>C36: when the buffer of zeros cannot be allocated, \<open>fill\<close> goes on all the same: it writes from a
  null buffer, which the kernel refuses for any count but 0, and the caller sees an \<open>IOException\<close>;
  the error of \<open>verifyBuffer\<close> never reaches Java, and no \<open>OutOfMemoryError\<close> is raised.\<close>

theorem fill_without_memory:
  assumes "oneMegaBuffer m = NULL" and "oneMegaMutex m = MUnlocked" and "heap_ok m"
    and "ioExceptionClass m \<noteq> 0"
    and "env_posix_memalign env (size_t alignment) (size_t ONE_MEGA) (world m) = (res, w)" and "res \<noteq> 0"
    and "\<And>k v. 0 < k \<Longrightarrow> fst (env_write env fd None k v) < 0" and "0 < n" and "n < 2 ^ 51"
  shows "\<exists>m' text. fill env fd alignment n m = Some m' \<and> exc m' = Some (IOException text)
    \<and> oneMegaBuffer m' = NULL \<and> blocks m' = blocks m"
  using fill_null_buffer [OF assms] .

theorem fill_without_memory_witness:
  "\<exists>m' text. fill sample_env 6 0 8192 (sample_machine 0 1) = Some m' \<and> exc m' = Some (IOException text)"
proof -
  have "heap_ok (sample_machine 0 1)" using sample_ready by (simp add: ready_def)
  moreover have "size_t 0 = 0" by (simp add: size_t_def)
  ultimately show ?thesis
    using fill_without_memory [of "sample_machine 0 1" sample_env 0 22 1 6 8192] by auto
qed

text \<open>\<open>open\<close> always gives back the characters of the path it borrowed from the JVM, and raises an
  \<open>IOException\<close> exactly when the system call fails; the descriptor is passed through.\<close>

theorem open_balanced:
  assumes "ready m" and "env_GetStringUTFChars env path (world m) = (f_path, w)"
    and "env_open env f_path direct w = (fd, err, w')"
  shows "\<exists>m'. open_file env path direct m = Some (fd, m') \<and> utf_pins m' = utf_pins m
    \<and> (if fd < 0 then \<exists>text. exc m' = Some (IOException text) else exc m' = exc m)
    \<and> blocks m' = blocks m \<and> cstrings m' = cstrings m"
proof (cases "fd < 0")
  case True
  let ?m = "m\<lparr>world := w', errno := err, log := log m @ [EOpen path direct fd]\<rparr>"
  have "open_file env path direct m = do {
      m' \<leftarrow> throwIOExceptionErrorNo env ''Cannot open file:'' err ?m; Some (fd, m') }"
    using assms(2,3) True by (cases m) (simp add: open_file_def GetStringUTFChars_def emit_def
      ReleaseStringUTFChars_def Let_def)
  moreover have "ready ?m" using assms(1) by simp
  ultimately show ?thesis using True by (simp add: throwIOExceptionErrorNo_eq raised_exc)
next
  case False
  with assms(2,3) show ?thesis
    by (cases m) (simp add: open_file_def GetStringUTFChars_def emit_def ReleaseStringUTFChars_def Let_def)
qed

theorem open_balanced_witness:
  "\<exists>m'. open_file sample_env ''missing'' True (sample_machine 0 1) = Some (-1, m') \<and> utf_pins m' = 0
    \<and> (\<exists>text. exc m' = Some (IOException text))"
  using open_balanced [OF sample_ready, of sample_env "''missing''" 0 1 "Some ''missing''" 1 True "-1" 2 1]
  by auto

text \<open>C37: \<open>getBlockSize\<close> by path. On success it returns the block size of the file, cut to 32 bits,
  and releases the characters of the path; when \<open>stat\<close> fails an \<open>IOException\<close> is pending, the
  result is -1, and the characters are never released: each such call pins one more string.\<close>

theorem getBlockSize_pins:
  assumes "ready m" and "env_GetStringUTFChars env path (world m) = (Some chars, w)"
    and "env_stat env (Some chars) w = (res, err, st, w')"
  shows "\<exists>m'. (if res < 0
    then getBlockSize env path m = Some (-1, m') \<and> utf_pins m' = Suc (utf_pins m)
      \<and> (\<exists>text. exc m' = Some (IOException text))
    else getBlockSize env path m = Some (to_int32 (st_blksize st), m') \<and> utf_pins m' = utf_pins m
      \<and> exc m' = exc m)"
proof (cases "res < 0")
  case True
  let ?m = "m\<lparr>world := w', utf_pins := Suc (utf_pins m), errno := err\<rparr>"
  have "getBlockSize env path m = do {
      m' \<leftarrow> throwIOExceptionErrorNo env ''Cannot determine file size:'' err ?m; Some (-1, m') }"
    using assms(2,3) True by (cases m) (simp add: getBlockSize_def GetStringUTFChars_def Let_def)
  moreover have "ready ?m" using assms(1) by simp
  ultimately show ?thesis using True by (simp add: throwIOExceptionErrorNo_eq raised_exc)
next
  case False
  with assms(2,3) show ?thesis
    by (cases m) (simp add: getBlockSize_def GetStringUTFChars_def ReleaseStringUTFChars_def Let_def)
qed

theorem getBlockSize_pins_witness:
  "\<exists>m'. getBlockSize sample_env ''missing'' (sample_machine 0 1) = Some (-1, m') \<and> utf_pins m' = 1"
  using getBlockSize_pins [OF sample_ready, of sample_env "''missing''" 0 1 "''missing''" 1 "-1" 2
      "\<lparr>st_size = 4096, st_blksize = 512\<rparr>" 1]
  by auto

end
