(* ===== verification/Loading.thy ===== *)
theory Loading
  imports Files
begin

section \<open>Loading and unloading the library\<close>

text \<open>
  \<open>JNI_OnLoad\<close>, which creates the dumb file and caches the classes and methods the code
  throws and calls, \<open>JNI_OnUnload\<close>, \<open>shutdownHook\<close> and \<open>closeDumbHandlers\<close>.
\<close>

definition JNI_ERR :: int where "JNI_ERR = -1"
definition JNI_VERSION_1_6 :: int where "JNI_VERSION_1_6 = 0x00010006"
definition EXPECTED_NATIVE_VERSION :: int where "EXPECTED_NATIVE_VERSION = 200"

definition find_class :: "'w env \<Rightarrow> string \<Rightarrow> 'w machine \<Rightarrow> nat \<times> 'w machine" where
  [machine_simps]: "find_class env name m =
     (let (c, w) = env_FindClass env name (world m) in (c, m\<lparr>world := w\<rparr>))"

text \<open>Asking for a method of a null class is undefined.\<close>

definition get_method ::
  "'w env \<Rightarrow> nat \<Rightarrow> string \<Rightarrow> string \<Rightarrow> 'w machine \<Rightarrow> (nat \<times> 'w machine) option" where
  [machine_simps]: "get_method env cls name sig m =
     (if cls = 0 then None
      else let (i, w) = env_GetMethodID env cls name sig (world m) in Some (i, m\<lparr>world := w\<rparr>))"

text \<open>The two exception classes, each with a global reference of its own.\<close>

definition load_runtimeException :: "'w env \<Rightarrow> 'w machine \<Rightarrow> (bool \<times> 'w machine) option" where
  "load_runtimeException env m = do {
     let (local, m) = find_class env ''java/lang/RuntimeException'' m;
     if local = 0 then Some (False, m) else do {
       let (h, m) = NewGlobalRef env local m;
       let m = m\<lparr>runtimeExceptionClass := h\<rparr>;
       if h = 0 then do { m \<leftarrow> throwOutOfMemoryError env m; Some (False, m) }
       else Some (True, m) } }"

definition load_ioException :: "'w env \<Rightarrow> 'w machine \<Rightarrow> (bool \<times> 'w machine) option" where
  "load_ioException env m = do {
     let (local, m) = find_class env ''java/io/IOException'' m;
     if local = 0 then Some (False, m) else do {
       let (h, m) = NewGlobalRef env local m;
       let m = m\<lparr>ioExceptionClass := h\<rparr>;
       if h = 0 then do { m \<leftarrow> throwOutOfMemoryError env m; Some (False, m) }
       else Some (True, m) } }"

text \<open>\<open>SubmitInfo\<close> and \<open>LibaioContext\<close> with the methods called from here.\<close>

definition load_submitInfo :: "'w env \<Rightarrow> 'w machine \<Rightarrow> (bool \<times> 'w machine) option" where
  "load_submitInfo env m = do {
     let (c, m) = find_class env ''org/apache/activemq/artemis/nativo/jlibaio/SubmitInfo'' m;
     let m = m\<lparr>submitClass := c\<rparr>;
     if c = 0 then Some (False, m) else do {
       let (h, m) = NewGlobalRef env (submitClass m) m;
       let m = m\<lparr>submitClass := h\<rparr>;
       (e, m) \<leftarrow> get_method env (submitClass m) ''onError'' ''(ILjava/lang/String;)V'' m;
       let m = m\<lparr>errorMethod := e\<rparr>;
       if e = 0 then Some (False, m) else do {
         (d, m) \<leftarrow> get_method env (submitClass m) ''done'' ''()V'' m;
         Some (d \<noteq> 0, m\<lparr>doneMethod := d\<rparr>) } } }"

definition load_libaioContext :: "'w env \<Rightarrow> 'w machine \<Rightarrow> (bool \<times> 'w machine) option" where
  "load_libaioContext env m = do {
     let (c, m) = find_class env ''org/apache/activemq/artemis/nativo/jlibaio/LibaioContext'' m;
     let m = m\<lparr>libaioContextClass := c\<rparr>;
     if c = 0 then Some (False, m) else do {
       let (h, m) = NewGlobalRef env (libaioContextClass m) m;
       let m = m\<lparr>libaioContextClass := h\<rparr>;
       (d, m) \<leftarrow> get_method env (libaioContextClass m) ''done''
         ''(Lorg/apache/activemq/artemis/nativo/jlibaio/SubmitInfo;)V'' m;
       Some (d \<noteq> 0, m\<lparr>libaioContextDone := d\<rparr>) } }"

definition P_tmpdir :: string where "P_tmpdir = ''/tmp''"

definition JNI_OnLoad :: "'w env \<Rightarrow> 'w machine \<Rightarrow> (int \<times> 'w machine) option" where
  "JNI_OnLoad env m =
     (if \<not> env_GetEnv env (world m) then Some (JNI_ERR, m)
      else do {
        let (res, w) = env_mutex_init env (world m);
        let m = m\<lparr>world := w\<rparr>;
        if res \<noteq> 0 then Some (JNI_ERR, emit (EStderr (''could not initialize mutex on on_load, '' @ printf_d res)) m)
        else do {
          let m = m\<lparr>oneMegaMutex := MUnlocked\<rparr>;
          let (fd, path, w) = env_mkstemp env (P_tmpdir @ ''/artemisJLHandler_XXXXXX'') (world m);
          let m = m\<lparr>dumbPath := path, dumbWriteHandler := fd, world := w\<rparr>;
          if fd < 0 then Some (JNI_ERR, emit (EStderr (''couldn't create stop file handler '' @ path @ [CHR 0x0A])) m)
          else do {
            (ok, m) \<leftarrow> load_runtimeException env m;
            if \<not> ok then Some (JNI_ERR, m) else do {
              (ok, m) \<leftarrow> load_ioException env m;
              if \<not> ok then Some (JNI_ERR, m) else do {
                (ok, m) \<leftarrow> load_submitInfo env m;
                if \<not> ok then Some (JNI_ERR, m) else do {
                  (ok, m) \<leftarrow> load_libaioContext env m;
                  if \<not> ok then Some (JNI_ERR, m) else Some (JNI_VERSION_1_6, m) } } } } } })"

text \<open>\<open>closeDumbHandlers\<close>, with its assignments in the order of the source.\<close>

definition closeDumbHandlers :: "'w env \<Rightarrow> 'w machine \<Rightarrow> 'w machine" where
  "closeDumbHandlers env m =
     (if dumbWriteHandler m \<noteq> 0 then
        let m = m\<lparr>dumbWriteHandler := 0\<rparr>;
            (_, _, w) = env_close env (dumbWriteHandler m) (world m);
            m = emit (EClose (dumbWriteHandler m)) (m\<lparr>world := w\<rparr>)
        in emit (EUnlink (dumbPath m)) (m\<lparr>world := env_unlink env (dumbPath m) (world m)\<rparr>)
      else m)"

definition shutdownHook :: "'w env \<Rightarrow> 'w machine \<Rightarrow> 'w machine" where
  "shutdownHook env m = closeDumbHandlers env m"

definition delete_class_ref :: "nat \<Rightarrow> 'w machine \<Rightarrow> 'w machine option" where
  "delete_class_ref cls m = (if cls \<noteq> 0 then DeleteGlobalRef cls m else Some m)"

definition JNI_OnUnload :: "'w env \<Rightarrow> 'w machine \<Rightarrow> 'w machine option" where
  "JNI_OnUnload env m =
     (if \<not> env_GetEnv env (world m) then Some m
      else do {
        let m = closeDumbHandlers env m;
        m \<leftarrow> (if oneMegaBuffer m \<noteq> NULL then do {
                m \<leftarrow> free_block (oneMegaBuffer m) m;
                Some (m\<lparr>oneMegaBuffer := NULL\<rparr>) }
              else Some m);
        l \<leftarrow> mutex_destroy (oneMegaMutex m);
        let m = m\<lparr>oneMegaMutex := l\<rparr>;
        m \<leftarrow> delete_class_ref (runtimeExceptionClass m) m;
        m \<leftarrow> delete_class_ref (ioExceptionClass m) m;
        m \<leftarrow> delete_class_ref (submitClass m) m;
        delete_class_ref (libaioContextClass m) m })"

definition getNativeVersion :: "int" where
  "getNativeVersion = EXPECTED_NATIVE_VERSION"

subsection \<open>Properties of loading and unloading\<close>

lemma JNI_OnLoad_facts:
  assumes "JNI_OnLoad env m = Some (JNI_VERSION_1_6, m')"
  shows "classes_loaded m' \<and> submitClass m' \<noteq> 0 \<and> doneMethod m' \<noteq> 0 \<and> libaioContextClass m' \<noteq> 0
    \<and> 0 \<le> dumbWriteHandler m' \<and> oneMegaMutex m' = MUnlocked \<and> ctls m' = ctls m \<and> blocks m' = blocks m
    \<and> oneMegaBuffer m' = oneMegaBuffer m"
    and "\<exists>a b c d. grefs m' = (grefs m)(runtimeExceptionClass m' \<mapsto> a, ioExceptionClass m' \<mapsto> b,
      submitClass m' \<mapsto> c, libaioContextClass m' \<mapsto> d)"
proof -
  note defs = JNI_OnLoad_def load_runtimeException_def load_ioException_def load_submitInfo_def
      load_libaioContext_def find_class_def get_method_def NewGlobalRef_def emit_def bind_Some_iff Let_def
      classes_loaded_def
  have d: "JNI_VERSION_1_6 \<noteq> JNI_ERR" by (simp add: JNI_VERSION_1_6_def JNI_ERR_def)
  from assms show "classes_loaded m' \<and> submitClass m' \<noteq> 0 \<and> doneMethod m' \<noteq> 0 \<and> libaioContextClass m' \<noteq> 0
    \<and> 0 \<le> dumbWriteHandler m' \<and> oneMegaMutex m' = MUnlocked \<and> ctls m' = ctls m \<and> blocks m' = blocks m
    \<and> oneMegaBuffer m' = oneMegaBuffer m"
    by (auto simp: defs d d [symmetric] split: if_splits prod.splits)
  from assms show "\<exists>a b c d. grefs m' = (grefs m)(runtimeExceptionClass m' \<mapsto> a, ioExceptionClass m' \<mapsto> b,
      submitClass m' \<mapsto> c, libaioContextClass m' \<mapsto> d)"
    by (auto simp: defs d d [symmetric] split: if_splits prod.splits) blast
qed

text \<open>After a successful \<open>JNI_OnLoad\<close> everything the other entry points rely on is there: the
  classes and methods they throw and call are known, the dumb file is open, and the lock of the
  buffer of zeros is free.\<close>

theorem JNI_OnLoad_ready:
  assumes "JNI_OnLoad env m = Some (JNI_VERSION_1_6, m')"
  shows "classes_loaded m' \<and> submitClass m' \<noteq> 0 \<and> doneMethod m' \<noteq> 0 \<and> libaioContextClass m' \<noteq> 0
    \<and> 0 \<le> dumbWriteHandler m' \<and> oneMegaMutex m' = MUnlocked \<and> ctls m' = ctls m \<and> blocks m' = blocks m"
  using JNI_OnLoad_facts(1) [OF assms] by blast

lemma sample_load:
  "JNI_OnLoad sample_env (sample_machine 0 1) = Some (JNI_VERSION_1_6, (sample_machine 0 1)\<lparr>
    dumbPath := P_tmpdir @ ''/artemisJLHandler_XXXXXX'', submitClass := 153, errorMethod := 8,
    doneMethod := 8, libaioContextDone := 8, libaioContextClass := 156, runtimeExceptionClass := 126,
    ioExceptionClass := 119, grefs := [90 \<mapsto> 1, 126 \<mapsto> 26, 119 \<mapsto> 19, 153 \<mapsto> 53, 156 \<mapsto> 56]\<rparr>)"
  by (simp add: JNI_OnLoad_def load_runtimeException_def load_ioException_def load_submitInfo_def
    load_libaioContext_def find_class_def get_method_def NewGlobalRef_def sample_machine_def eval_nat_numeral)

theorem JNI_OnLoad_ready_witness:
  "\<exists>m'. JNI_OnLoad sample_env (sample_machine 0 1) = Some (JNI_VERSION_1_6, m') \<and> classes_loaded m'"
  using JNI_OnLoad_ready [OF sample_load] sample_load by blast

text \<open>C39: \<open>closeDumbHandlers\<close> closes the wrong descriptor. The variable is reset before it is used,
  so the call that follows closes descriptor 0, the standard input of the process, and the
  descriptor of the dumb file stays open; only the name of the file goes away. A second call does
  nothing.\<close>

theorem closeDumbHandlers_closes_stdin:
  assumes "dumbWriteHandler m = fd" and "fd \<noteq> 0"
  shows "log (closeDumbHandlers env m) = log m @ [EClose 0, EUnlink (dumbPath m)]
    \<and> EClose fd \<notin> set (drop (length (log m)) (log (closeDumbHandlers env m)))
    \<and> dumbWriteHandler (closeDumbHandlers env m) = 0
    \<and> closeDumbHandlers env (closeDumbHandlers env m) = closeDumbHandlers env m"
  using assms by (simp add: closeDumbHandlers_def emit_def Let_def split: prod.splits)

theorem closeDumbHandlers_closes_stdin_witness:
  "log (closeDumbHandlers sample_env (sample_machine 0 1)) = [EClose 0, EUnlink ''/tmp/dumb'']"
  using closeDumbHandlers_closes_stdin [of "sample_machine 0 1" 5 sample_env] by simp

lemma delete_class_ref_eq:
  "cls \<noteq> 0 \<Longrightarrow> grefs m cls \<noteq> None \<Longrightarrow>
    delete_class_ref cls m = Some (m\<lparr>grefs := (grefs m)(cls := None), log := log m @ [EDeleteGlobalRef cls]\<rparr>)"
  by (auto simp: delete_class_ref_def DeleteGlobalRef_def emit_def)

lemma unload_run:
  assumes "env_GetEnv env (world m1)" and "classes_loaded m1" and "submitClass m1 \<noteq> 0"
    and "libaioContextClass m1 \<noteq> 0" and "oneMegaMutex m1 = MUnlocked"
    and "distinct [runtimeExceptionClass m1, ioExceptionClass m1, submitClass m1, libaioContextClass m1]"
    and "grefs m1 = g(runtimeExceptionClass m1 \<mapsto> a, ioExceptionClass m1 \<mapsto> b, submitClass m1 \<mapsto> c,
        libaioContextClass m1 \<mapsto> d)"
    and "dom g \<inter> {runtimeExceptionClass m1, ioExceptionClass m1, submitClass m1, libaioContextClass m1} = {}"
    and "oneMegaBuffer m1 = NULL \<or> blocks m1 (oneMegaBuffer m1) \<noteq> None"
  shows "\<exists>m2. JNI_OnUnload env m1 = Some m2 \<and> grefs m2 = g \<and> oneMegaMutex m2 = MDestroyed
    \<and> oneMegaBuffer m2 = NULL
    \<and> blocks m2 = (if oneMegaBuffer m1 = NULL then blocks m1 else (blocks m1)(oneMegaBuffer m1 := None))"
proof -
  let ?m = "closeDumbHandlers env m1"
  have same: "oneMegaMutex ?m = MUnlocked" "oneMegaBuffer ?m = oneMegaBuffer m1" "blocks ?m = blocks m1"
    "runtimeExceptionClass ?m = runtimeExceptionClass m1" "ioExceptionClass ?m = ioExceptionClass m1"
    "submitClass ?m = submitClass m1" "libaioContextClass ?m = libaioContextClass m1" "grefs ?m = grefs m1"
    using assms(5) by (simp_all add: closeDumbHandlers_def emit_def Let_def split: prod.splits)
  let ?r = "runtimeExceptionClass m1" and ?i = "ioExceptionClass m1"
    and ?s = "submitClass m1" and ?x = "libaioContextClass m1"
  have gone: "(grefs m1)(?r := None, ?i := None, ?s := None, ?x := None) = g"
    using assms(8) unfolding assms(7) by (auto simp: fun_eq_iff dom_def)
  let ?release = "if oneMegaBuffer ?m \<noteq> NULL then do {
      m \<leftarrow> free_block (oneMegaBuffer ?m) ?m; Some (m\<lparr>oneMegaBuffer := NULL\<rparr>) } else Some ?m"
  have "\<exists>mf. ?release = Some mf \<and> oneMegaBuffer mf = NULL \<and> oneMegaMutex mf = MUnlocked
    \<and> blocks mf = (if oneMegaBuffer m1 = NULL then blocks m1 else (blocks m1)(oneMegaBuffer m1 := None))
    \<and> runtimeExceptionClass mf = ?r \<and> ioExceptionClass mf = ?i \<and> submitClass mf = ?s
    \<and> libaioContextClass mf = ?x \<and> grefs mf = grefs m1"
    using same assms(9) by (cases "oneMegaBuffer m1 = NULL") (auto simp: free_block_def)
  then obtain mf where release: "?release = Some mf" and mf: "oneMegaBuffer mf = NULL" "oneMegaMutex mf = MUnlocked"
    "blocks mf = (if oneMegaBuffer m1 = NULL then blocks m1 else (blocks m1)(oneMegaBuffer m1 := None))"
    "runtimeExceptionClass mf = ?r" "ioExceptionClass mf = ?i" "submitClass mf = ?s"
    "libaioContextClass mf = ?x" "grefs mf = grefs m1" by blast
  have nz: "?r \<noteq> 0" "?i \<noteq> 0" using assms(2) by (simp_all add: classes_loaded_def)
  have live: "grefs m1 ?r \<noteq> None" "grefs m1 ?i \<noteq> None" "grefs m1 ?s \<noteq> None" "grefs m1 ?x \<noteq> None"
    unfolding assms(7) by (simp_all only: fun_upd_def) simp_all
  have "JNI_OnUnload env m1 = do {
      m \<leftarrow> delete_class_ref ?r (mf\<lparr>oneMegaMutex := MDestroyed\<rparr>);
      m \<leftarrow> delete_class_ref (ioExceptionClass m) m;
      m \<leftarrow> delete_class_ref (submitClass m) m;
      delete_class_ref (libaioContextClass m) m }"
    using assms(1) release mf by (simp add: JNI_OnUnload_def Let_def)
  also have "\<dots> = Some (mf\<lparr>oneMegaMutex := MDestroyed, grefs := g,
      log := log mf @ [EDeleteGlobalRef ?r, EDeleteGlobalRef ?i, EDeleteGlobalRef ?s, EDeleteGlobalRef ?x]\<rparr>)"
    using mf(4-8) nz live assms(3,4,6) by (simp add: delete_class_ref_eq gone)
  finally show ?thesis using mf by simp
qed

text \<open>C38: unloading gives back the references and the memory that the library holds. After a
  successful load, whether unloading comes at once or after a \<open>verifyBuffer\<close> that made the buffer of
  zeros or failed to, the four global references to classes are deleted, each once, and no other;
  the buffer is freed, so the blocks of the heap are those from before the load; and the lock is
  destroyed. The descriptor of the dumb file is not given back, which the next property shows.\<close>

theorem load_unload_balanced:
  assumes "JNI_OnLoad env m = Some (JNI_VERSION_1_6, m1)" and "\<And>w. env_GetEnv env w"
    and "distinct [runtimeExceptionClass m1, ioExceptionClass m1, submitClass m1, libaioContextClass m1]"
    and "dom (grefs m) \<inter> {runtimeExceptionClass m1, ioExceptionClass m1, submitClass m1, libaioContextClass m1} = {}"
    and "oneMegaBuffer m = NULL" and "heap_ok m1" and "verifyBuffer env alignment m1 = Some (v, mv)"
    and "mu \<in> {m1, mv}"
  shows "\<exists>m2. JNI_OnUnload env mu = Some m2 \<and> grefs m2 = grefs m \<and> oneMegaMutex m2 = MDestroyed
    \<and> oneMegaBuffer m2 = NULL \<and> blocks m2 = blocks m"
proof -
  note l = JNI_OnLoad_facts(1) [OF assms(1)]
  from JNI_OnLoad_facts(2) [OF assms(1)] obtain a b c d where grefs: "grefs m1 =
      (grefs m)(runtimeExceptionClass m1 \<mapsto> a, ioExceptionClass m1 \<mapsto> b, submitClass m1 \<mapsto> c,
        libaioContextClass m1 \<mapsto> d)" by blast
  obtain res w where pm: "env_posix_memalign env (size_t alignment) (size_t ONE_MEGA) (world m1) = (res, w)"
    by fastforce
  have null: "oneMegaBuffer m1 = NULL" "oneMegaMutex m1 = MUnlocked" "blocks m1 = blocks m" using l assms(5) by simp_all
  from verifyBuffer_first [OF null(1,2) assms(6) pm] assms(7)
  have mv: "mv = (if res = 0
    then m1\<lparr>world := w, next_addr := Suc (next_addr m1), oneMegaBuffer := next_addr m1,
      blocks := (blocks m1)(next_addr m1 \<mapsto> replicate (nat ONE_MEGA) 0)\<rparr>
    else m1\<lparr>world := w, log := log m1 @
      [EStderr (''Could not allocate the 1 Mega Buffer for initializing files'' @ [CHR 0x0A])]\<rparr>)"
    by (auto split: if_splits)
  have fresh: "blocks m1 (next_addr m1) = None"
    using heap_ok_next [OF assms(6)] by (simp add: unallocated_def)
  have same: "runtimeExceptionClass mu = runtimeExceptionClass m1" "ioExceptionClass mu = ioExceptionClass m1"
    "submitClass mu = submitClass m1" "libaioContextClass mu = libaioContextClass m1" "grefs mu = grefs m1"
    "oneMegaMutex mu = MUnlocked" "classes_loaded mu"
    using assms(8) null(2) l by (auto simp: mv classes_loaded_def)
  have buf: "oneMegaBuffer mu = NULL \<and> blocks mu = blocks m
    \<or> oneMegaBuffer mu \<noteq> NULL \<and> blocks mu (oneMegaBuffer mu) \<noteq> None
      \<and> (blocks mu)(oneMegaBuffer mu := None) = blocks m"
    using assms(8) null fresh heap_ok_next [OF assms(6)] by (auto simp: mv fun_upd_idem)
  have "\<exists>m2. JNI_OnUnload env mu = Some m2 \<and> grefs m2 = grefs m \<and> oneMegaMutex m2 = MDestroyed
    \<and> oneMegaBuffer m2 = NULL
    \<and> blocks m2 = (if oneMegaBuffer mu = NULL then blocks mu else (blocks mu)(oneMegaBuffer mu := None))"
    by (rule unload_run [OF assms(2), where a = a and b = b and c = c and d = d])
      (use same l grefs assms(3,4) buf in auto)
  with buf show ?thesis by auto
qed

theorem load_unload_balanced_witness:
  "\<exists>m1 mv m2. JNI_OnLoad sample_env (sample_machine 0 1) = Some (JNI_VERSION_1_6, m1)
    \<and> verifyBuffer sample_env 4096 m1 = Some (0, mv) \<and> oneMegaBuffer mv \<noteq> NULL
    \<and> JNI_OnUnload sample_env mv = Some m2 \<and> grefs m2 = [90 \<mapsto> 1] \<and> blocks m2 = Map.empty"
proof -
  let ?m1 = "(sample_machine 0 1)\<lparr>
    dumbPath := P_tmpdir @ ''/artemisJLHandler_XXXXXX'', submitClass := 153, errorMethod := 8,
    doneMethod := 8, libaioContextDone := 8, libaioContextClass := 156, runtimeExceptionClass := 126,
    ioExceptionClass := 119, grefs := [90 \<mapsto> 1, 126 \<mapsto> 26, 119 \<mapsto> 19, 153 \<mapsto> 53, 156 \<mapsto> 56]\<rparr>"
  have heap: "heap_ok ?m1"
    using sample_ready [of 0 1] by (simp add: ready_def heap_ok_def unallocated_def)
  have al: "size_t 4096 \<noteq> 0" by (simp add: size_t_def)
  obtain mv where v: "verifyBuffer sample_env 4096 ?m1 = Some (0, mv)" "oneMegaBuffer mv = 40"
    using verifyBuffer_first [OF _ _ heap, of sample_env 4096 0 1] al by auto
  have "\<exists>m2. JNI_OnUnload sample_env mv = Some m2 \<and> grefs m2 = grefs (sample_machine 0 1)
    \<and> oneMegaMutex m2 = MDestroyed \<and> oneMegaBuffer m2 = NULL \<and> blocks m2 = blocks (sample_machine 0 1)"
    by (rule load_unload_balanced [OF sample_load _ _ _ _ heap v(1)]) simp_all
  with v sample_load show ?thesis by auto
qed

end
