(* ===== verification/JavaContext.thy ===== *)
theory JavaContext
  imports Context Loading
begin

section \<open>The Java side of a context\<close>

text \<open>
  \<open>LibaioContext\<close>: the semaphore that bounds the requests in flight, the flag that tells a closed
  context, the counters over all contexts and the shutdown hook, on top of the native functions
  of the other theories. A native call that returns with an exception pending raises it in Java.
  A semaphore is its number of permits; an \<open>acquire\<close> that would block for ever has no result.
\<close>

record 'w jvm =
  native :: "'w machine"
  totalMaxIO :: int
  contexts :: int
  shuttingDown :: bool

record libaio_context =
  lc_ioContext :: jobject
  lc_closed :: bool
  lc_ioSpace :: "int option"
  lc_queueSize :: int
  lc_useFdatasync :: bool

datatype java_error = NativeError jexc | ContextIsClosed | InterruptedIO | NullPointer string

definition take_exc :: "'w machine \<Rightarrow> jexc option \<times> 'w machine" where
  "take_exc m = (exc m, m\<lparr>exc := None\<rparr>)"

subsection \<open>Loading the library\<close>

text \<open>\<open>loadLibrary\<close>: \<open>links\<close> tells whether the file can be loaded, \<open>version\<close> what its
  \<open>getNativeVersion\<close> returns.\<close>

definition loadLibrary :: "(string \<Rightarrow> bool) \<Rightarrow> (string \<Rightarrow> int) \<Rightarrow> string \<Rightarrow> bool" where
  "loadLibrary links version name = (links name \<and> version name = EXPECTED_NATIVE_VERSION)"

fun load_first :: "(string \<Rightarrow> bool) \<Rightarrow> (string \<Rightarrow> int) \<Rightarrow> string list \<Rightarrow> string option" where
  "load_first links version [] = None"
| "load_first links version (library # libraries) =
     (if loadLibrary links version library then Some library
      else load_first links version libraries)"

definition static_init :: "(string \<Rightarrow> bool) \<Rightarrow> (string \<Rightarrow> int) \<Rightarrow> bool \<Rightarrow> 'w jvm \<Rightarrow> bool \<times> 'w jvm" where
  "static_init links version force_property j =
     (case load_first links version [''artemis-native-64'', ''artemis-native-32''] of
        None \<Rightarrow> (False, j)
      | Some library \<Rightarrow> (True, if force_property then j\<lparr>native := setForceSyscall True (native j)\<rparr> else j))"

subsection \<open>Shutdown\<close>

definition checkShutdown :: "'w env \<Rightarrow> 'w jvm \<Rightarrow> 'w jvm" where
  "checkShutdown env j =
     (if contexts j = 0 \<and> shuttingDown j then j\<lparr>native := shutdownHook env (native j)\<rparr> else j)"

text \<open>The thread that the JVM runs at its end.\<close>

definition shutdown_thread :: "'w env \<Rightarrow> 'w jvm \<Rightarrow> 'w jvm" where
  "shutdown_thread env j = checkShutdown env (j\<lparr>shuttingDown := True\<rparr>)"

subsection \<open>Constructor\<close>

definition new_LibaioContext ::
  "'w env \<Rightarrow> jobject \<Rightarrow> int \<Rightarrow> bool \<Rightarrow> bool \<Rightarrow> 'w jvm \<Rightarrow> ((java_error + libaio_context) \<times> 'w jvm) option" where
  "new_LibaioContext env this qsize useSemaphore useFdatasync j = do {
     let j = j\<lparr>contexts := contexts j + 1\<rparr>;
     (buf, m) \<leftarrow> newContext env this qsize (native j);
     let (e, m) = take_exc m;
     let j = j\<lparr>native := m\<rparr>;
     case e of
       Some x \<Rightarrow> Some (Inl (NativeError x), j)
     | None \<Rightarrow> Some (Inr \<lparr>lc_ioContext = buf, lc_closed = False,
           lc_ioSpace = (if useSemaphore then Some qsize else None),
           lc_queueSize = qsize, lc_useFdatasync = useFdatasync\<rparr>,
         j\<lparr>totalMaxIO := totalMaxIO j + qsize\<rparr>) }"

subsection \<open>The semaphore\<close>

text \<open>\<open>acquire()\<close> in a thread that may be interrupted: whether it got its permit.\<close>

definition acquire :: "bool \<Rightarrow> libaio_context \<Rightarrow> (bool \<times> libaio_context) option" where
  "acquire interrupted c =
     (case lc_ioSpace c of
        None \<Rightarrow> Some (True, c)
      | Some k \<Rightarrow> if interrupted then Some (False, c)
                 else if 0 < k then Some (True, c\<lparr>lc_ioSpace := Some (k - 1)\<rparr>)
                 else None)"

definition release :: "int \<Rightarrow> libaio_context \<Rightarrow> libaio_context" where
  "release n c = c\<lparr>lc_ioSpace := map_option (\<lambda>k. k + n) (lc_ioSpace c)\<rparr>"

text \<open>\<open>tryAcquire(queueSize, 10, SECONDS)\<close>, its result ignored; \<open>returned\<close> is the number of permits
  that come back while it waits.\<close>

definition tryAcquire_all :: "int \<Rightarrow> libaio_context \<Rightarrow> libaio_context" where
  "tryAcquire_all returned c =
     c\<lparr>lc_ioSpace := map_option (\<lambda>k. let k = k + returned in
         if lc_queueSize c \<le> k then k - lc_queueSize c else k) (lc_ioSpace c)\<rparr>"

subsection \<open>Submission\<close>

definition java_submitWrite ::
  "'w env \<Rightarrow> bool \<Rightarrow> int \<Rightarrow> int \<Rightarrow> int \<Rightarrow> jobject \<Rightarrow> jobject \<Rightarrow> libaio_context \<Rightarrow> 'w jvm
    \<Rightarrow> (java_error option \<times> libaio_context \<times> 'w jvm) option" where
  "java_submitWrite env interrupted fd position nbytes bufferWrite callback c j =
     (if lc_closed c then Some (Some ContextIsClosed, c, j)
      else do {
        (ok, c) \<leftarrow> acquire interrupted c;
        if \<not> ok then Some (Some InterruptedIO, c, j)
        else do {
          m \<leftarrow> submitWrite env fd (lc_ioContext c) position nbytes bufferWrite callback (native j);
          let (e, m) = take_exc m;
          Some (map_option NativeError e, c, j\<lparr>native := m\<rparr>) } })"

definition java_submitRead ::
  "'w env \<Rightarrow> bool \<Rightarrow> int \<Rightarrow> int \<Rightarrow> int \<Rightarrow> jobject \<Rightarrow> jobject \<Rightarrow> libaio_context \<Rightarrow> 'w jvm
    \<Rightarrow> (java_error option \<times> libaio_context \<times> 'w jvm) option" where
  "java_submitRead env interrupted fd position nbytes bufferRead callback c j =
     (if lc_closed c then Some (Some ContextIsClosed, c, j)
      else do {
        (ok, c) \<leftarrow> acquire interrupted c;
        if \<not> ok then Some (Some InterruptedIO, c, j)
        else do {
          m \<leftarrow> submitRead env fd (lc_ioContext c) position nbytes bufferRead callback (native j);
          let (e, m) = take_exc m;
          Some (map_option NativeError e, c, j\<lparr>native := m\<rparr>) } })"

subsection \<open>Polling\<close>

definition java_poll ::
  "'w env \<Rightarrow> jobject list \<Rightarrow> int \<Rightarrow> int \<Rightarrow> libaio_context \<Rightarrow> 'w jvm
    \<Rightarrow> ((java_error + int) \<times> jobject list \<times> libaio_context \<times> 'w jvm) option" where
  "java_poll env callbacks min_nr max_nr c j = do {
     (released, callbacks, m) \<leftarrow> poll env (lc_ioContext c) callbacks min_nr max_nr (native j);
     let (e, m) = take_exc m;
     let j = j\<lparr>native := m\<rparr>;
     case e of
       Some x \<Rightarrow> Some (Inl (NativeError x), callbacks, c, j)
     | None \<Rightarrow> Some (Inr released, callbacks, (if 0 < released then release released c else c), j) }"

text \<open>\<open>done\<close>, called back by \<open>blockedPoll\<close> for each completion. When \<open>info.done()\<close> has thrown, no permit is
  released and the exception is pending in the native loop, whose next JNI call is then undefined;
  \<open>java_blocked_poll\<close> is the loop with callbacks that return.\<close>

definition java_done :: "bool \<Rightarrow> libaio_context \<Rightarrow> libaio_context" where
  "java_done threw c = (if threw then c else release 1 c)"

definition java_blocked_poll ::
  "'w env \<Rightarrow> ('w machine \<Rightarrow> 'w machine) \<Rightarrow> nat \<Rightarrow> libaio_context \<Rightarrow> 'w jvm
    \<Rightarrow> (bool \<times> java_error option \<times> libaio_context \<times> 'w jvm) option" where
  "java_blocked_poll env others fuel c j =
     (if lc_closed c then Some (False, None, c, j)
      else do {
        (running, m) \<leftarrow> blockedPoll env others fuel (lc_ioContext c) (lc_useFdatasync c) (native j);
        let upcalls = done_calls (drop (length (log (native j))) (log m));
        let (e, m) = take_exc m;
        Some (running, map_option NativeError e, fold (\<lambda>_. java_done False) upcalls c, j\<lparr>native := m\<rparr>) })"

subsection \<open>Closing\<close>

definition java_close ::
  "'w env \<Rightarrow> ('w machine \<Rightarrow> 'w machine) \<Rightarrow> int \<Rightarrow> libaio_context \<Rightarrow> 'w jvm
    \<Rightarrow> (java_error option \<times> libaio_context \<times> 'w jvm) option" where
  "java_close env others returned c j =
     (if lc_closed c then Some (None, c, j)
      else do {
        let c = tryAcquire_all returned (c\<lparr>lc_closed := True\<rparr>);
        let j = j\<lparr>totalMaxIO := totalMaxIO j - lc_queueSize c\<rparr>;
        (e, m) \<leftarrow> (if lc_ioContext c \<noteq> 0 then do {
                     m \<leftarrow> deleteContext env others (lc_ioContext c) (native j);
                     Some (take_exc m) }
                   else Some (None, native j));
        let j = j\<lparr>native := m\<rparr>;
        case e of
          Some x \<Rightarrow> Some (Some (NativeError x), c, j)
        | None \<Rightarrow> Some (None, c, checkShutdown env (j\<lparr>contexts := contexts j - 1\<rparr>)) })"

subsection \<open>Permits and control blocks\<close>

text \<open>A context with a semaphore, its native part at \<open>p\<close> with \<open>u\<close> requests in flight, \<open>k\<close> permits left.\<close>

definition java_ctx :: "'w env \<Rightarrow> addr \<Rightarrow> int \<Rightarrow> int \<Rightarrow> libaio_context \<Rightarrow> 'w jvm \<Rightarrow> bool" where
  "java_ctx env p k u c j \<longleftrightarrow> lc_ioSpace c = Some k
   \<and> env_GetDirectBufferAddress env (lc_ioContext c) (world (native j)) = p
   \<and> ctx_ok p (native j) \<and> ready (native j) \<and> exc (native j) = None
   \<and> (\<exists>io. ctls (native j) p = Some io \<and> used io = u \<and> queueSize io = lc_queueSize c)"

lemma take_exc_eq [simp]: "take_exc m = (exc m, m\<lparr>exc := None\<rparr>)"
  by (simp add: take_exc_def)

lemma release_simps [simp]:
  "lc_ioSpace (release n c) = map_option (\<lambda>k. k + n) (lc_ioSpace c)"
  "lc_queueSize (release n c) = lc_queueSize c" "lc_ioContext (release n c) = lc_ioContext c"
  "lc_closed (release n c) = lc_closed c" "lc_useFdatasync (release n c) = lc_useFdatasync c"
  by (simp_all add: release_def)

text \<open>The result of a Java submission: \<open>io'\<close> is the native context afterwards.\<close>

lemma java_submit_step:
  assumes "java_ctx env p k u c j" and "\<not> lc_closed c" and "0 < k" and "k + u \<le> lc_queueSize c"
    and "fresh_ref env (native j) callback"
    and run: "run = java_submitWrite env False fd position nbytes buffer callback c j
      \<or> run = java_submitRead env False fd position nbytes buffer callback c j"
  shows "\<exists>e c' j' io'. run = Some (e, c', j') \<and> lc_ioSpace c' = Some (k - 1)
    \<and> ctls (native j') p = Some io' \<and> ctx_ok p (native j') \<and> queueSize io' = lc_queueSize c
    \<and> (if e = None then used io' = u + 1
       else used io' = u \<and> e \<noteq> Some (NativeError (IOException (Some ''Not enough space in libaio queue''))))"
proof -
  from assms(1) obtain io where c: "lc_ioSpace c = Some k"
    "env_GetDirectBufferAddress env (lc_ioContext c) (world (native j)) = p" "ctx_ok p (native j)"
    "ready (native j)" "exc (native j) = None" "ctls (native j) p = Some io" "used io = u"
    "queueSize io = lc_queueSize c" by (auto simp: java_ctx_def)
  with assms(3,4) have room: "used io < queueSize io" by simp
  note out = request_outcome [OF c(2,3,6) room assms(5) c(4,5)]
  have "\<exists>m' io'. run = Some (map_option NativeError (exc m'), c\<lparr>lc_ioSpace := Some (k - 1)\<rparr>,
      j\<lparr>native := m'\<lparr>exc := None\<rparr>\<rparr>)
    \<and> ctls m' p = Some io' \<and> ctx_ok p m' \<and> queueSize io' = queueSize io
    \<and> (if exc m' = None then used io' = used io + 1
       else used io' = used io \<and> exc m' \<noteq> Some (IOException (Some ''Not enough space in libaio queue'')))"
    using run
  proof
    assume "run = java_submitWrite env False fd position nbytes buffer callback c j"
    with out [of "env_prep_pwrite env" fd position nbytes buffer] c assms(2,3) show ?thesis
      by (fastforce simp: java_submitWrite_def acquire_def submitWrite_request)
  next
    assume "run = java_submitRead env False fd position nbytes buffer callback c j"
    with out [of "env_prep_pread env" fd position nbytes buffer] c assms(2,3) show ?thesis
      by (fastforce simp: java_submitRead_def acquire_def submitRead_request)
  qed
  then obtain m' io' where "run = Some (map_option NativeError (exc m'), c\<lparr>lc_ioSpace := Some (k - 1)\<rparr>,
      j\<lparr>native := m'\<lparr>exc := None\<rparr>\<rparr>)"
    "ctls m' p = Some io'" "ctx_ok p m'" "queueSize io' = queueSize io"
    "if exc m' = None then used io' = used io + 1
     else used io' = used io \<and> exc m' \<noteq> Some (IOException (Some ''Not enough space in libaio queue''))"
    by blast
  with c(7,8) show ?thesis by (cases "exc m'") auto
qed

subsection \<open>Properties of the Java context\<close>

text \<open>C18: the semaphore protects the pool. While the permits left and the requests in flight add up
  to no more than the queue size, a submission that gets its permit never meets an exhausted
  pool, and the sum stays within the queue size; it is unchanged when the request is accepted and
  drops by one when the native call raises an exception, so that permit is lost.\<close>

theorem semaphore_protects_pool:
  assumes "java_ctx env p k u c j" and "\<not> lc_closed c" and "0 < k" and "k + u \<le> lc_queueSize c"
    and "fresh_ref env (native j) callback"
  shows "\<exists>e c' j' k' io'. java_submitWrite env False fd position nbytes buffer callback c j = Some (e, c', j')
    \<and> lc_ioSpace c' = Some k' \<and> ctls (native j') p = Some io' \<and> ctx_ok p (native j')
    \<and> e \<noteq> Some (NativeError (IOException (Some ''Not enough space in libaio queue'')))
    \<and> k' + used io' = (if e = None then k + u else k + u - 1)"
  using java_submit_step [OF assms, of _ fd position nbytes buffer] by fastforce

definition sample_jvm :: "int \<Rightarrow> nat \<Rightarrow> nat jvm" where
  "sample_jvm k w = \<lparr>native = sample_machine k w, totalMaxIO = 3, contexts = 1, shuttingDown = False\<rparr>"

definition sample_context :: "int \<Rightarrow> libaio_context" where
  "sample_context k = \<lparr>lc_ioContext = 10, lc_closed = False, lc_ioSpace = Some k, lc_queueSize = 3,
     lc_useFdatasync = True\<rparr>"

lemma sample_java_ctx:
  "java_ctx sample_env 10 k 0 (sample_context k) (sample_jvm 0 w)"
  "java_ctx sample_env 10 k 1 (sample_context k) (sample_jvm 1 w)"
  using sample_ready sample_pool_inv
  by (simp_all add: java_ctx_def sample_context_def sample_jvm_def ctx_ok_def)

theorem semaphore_protects_pool_witness:
  "\<exists>e c' j' k' io'. java_submitWrite sample_env False 6 0 512 50 77 (sample_context 1) (sample_jvm 1 0) = Some (e, c', j')
    \<and> lc_ioSpace c' = Some k' \<and> ctls (native j') 10 = Some io' \<and> k' + used io' = (if e = None then 2 else 1)"
  using semaphore_protects_pool [OF sample_java_ctx(2), of 1 0 77 6 0 512 50]
  by (fastforce simp: sample_context_def sample_jvm_def fresh_ref_def)

text \<open>C27: lost permits end in a context that blocks for ever. With one permit left, a submission that
  the kernel refuses throws, and the next one waits on the semaphore for ever although no request
  at all is in flight.\<close>

theorem failed_submit_leaks_permit:
  assumes "java_ctx env p 1 0 c j" and "\<not> lc_closed c" and "1 \<le> lc_queueSize c"
    and "fresh_ref env (native j) callback"
    and "java_submitWrite env False fd position nbytes buffer callback c j = Some (Some e, c', j')"
  shows "lc_ioSpace c' = Some 0 \<and> (\<exists>io'. ctls (native j') p = Some io' \<and> used io' = 0)
    \<and> java_submitWrite env False fd position nbytes buffer callback c' j' = None
    \<and> java_submitRead env False fd position nbytes buffer callback c' j' = None"
proof -
  have step: "lc_ioSpace c' = Some 0" "\<exists>io'. ctls (native j') p = Some io' \<and> used io' = 0"
    using java_submit_step [OF assms(1,2) _ _ assms(4), of _ fd position nbytes buffer] assms(3,5)
    by fastforce+
  moreover have "\<not> lc_closed c'"
    using assms(2,5) by (auto simp: java_submitWrite_def acquire_def bind_Some_iff split: option.splits if_splits)
  ultimately show ?thesis by (simp add: java_submitWrite_def java_submitRead_def acquire_def)
qed

lemma sample_java_rejected:
  "\<exists>e c' j'. java_submitWrite sample_env False 6 0 512 50 77 (sample_context 1) (sample_jvm 0 0)
    = Some (Some e, c', j')"
proof -
  have ok: "ctx_ok 10 (sample_machine 0 0)" using sample_pool_inv by (simp add: ctx_ok_def)
  have "\<exists>m' c'. submit_request sample_env (env_prep_pwrite sample_env) 6 10 0 512 50 77 (sample_machine 0 0)
      = Some m' \<and> (\<exists>text. exc m' = Some (IOException text)
        \<and> (text = None \<or> (\<exists>s. text = Some (''Error while submitting IO: '' @ s)))) \<and> ready m'
    \<and> grefs m' = grefs (sample_machine 0 0) \<and> ctls m' = (ctls (sample_machine 0 0))(10 \<mapsto> c') \<and> pool_inv c'
    \<and> pool_free c' = tl (pool_free (sample_control 0)) @ [hd (pool_free (sample_control 0))]
    \<and> used c' = used (sample_control 0) \<and> queueSize c' = queueSize (sample_control 0)
    \<and> iocbs m' = (iocbs (sample_machine 0 0))(hd (pool_free (sample_control 0)) \<mapsto>
        (sample_prep (sample_iocb 6 DNull) 6 50 (size_t 512) 0)\<lparr>iocb_data := cookie_of 177\<rparr>)
    \<and> blocks m' = blocks (sample_machine 0 0) \<and> arrays m' = arrays (sample_machine 0 0)
    \<and> cstrings m' = cstrings (sample_machine 0 0)"
    by (rule request_rejected [where w = 0 and w' = 0 and r = "-11" and blk = "sample_iocb 6 DNull",
        OF _ ok _ _ _ _ _ sample_ready]) (simp_all add: fresh_ref_def)
  then show ?thesis
    by (auto simp: java_submitWrite_def acquire_def submitWrite_request sample_context_def sample_jvm_def)
qed

theorem failed_submit_leaks_permit_witness:
  "\<exists>e c' j'. java_submitWrite sample_env False 6 0 512 50 77 (sample_context 1) (sample_jvm 0 0) = Some (Some e, c', j')
    \<and> java_submitWrite sample_env False 6 0 512 50 77 c' j' = None"
proof -
  obtain e c' j' where run:
    "java_submitWrite sample_env False 6 0 512 50 77 (sample_context 1) (sample_jvm 0 0) = Some (Some e, c', j')"
    using sample_java_rejected by blast
  with failed_submit_leaks_permit [OF sample_java_ctx(1) _ _ _ run] show ?thesis
    by (auto simp: sample_context_def sample_jvm_def fresh_ref_def)
qed

text \<open>C28: what \<open>poll\<close> takes out it gives back to the semaphore: after a call that returns \<open>n\<close> completions
  there are \<open>n\<close> more permits and \<open>n\<close> fewer control blocks in use.\<close>

theorem java_poll_returns_permits:
  assumes "java_ctx env p k u c j" and "ctls (native j) p = Some io" and "waiting p io evs (native j)"
    and "batch_ok (native j) io evs" and "min_nr \<le> int (length evs)" and "int (length evs) < max_nr"
    and "length evs \<le> length callbacks"
  shows "\<exists>callbacks' c' j' io'. java_poll env callbacks min_nr max_nr c j
      = Some (Inr (int (length evs)), callbacks', c', j')
    \<and> take (length evs) callbacks' = map (obj_of (native j)) evs
    \<and> lc_ioSpace c' = Some (k + int (length evs)) \<and> ctls (native j') p = Some io' \<and> pool_inv io'
    \<and> used io' = u - int (length evs)"
proof -
  from assms(1) have c: "lc_ioSpace c = Some k"
    "env_GetDirectBufferAddress env (lc_ioContext c) (world (native j)) = p" "p \<noteq> NULL" "exc (native j) = None"
    "used io = u" using assms(2) by (auto simp: java_ctx_def ctx_ok_def)
  obtain m' io' where run: "poll env (lc_ioContext c) callbacks min_nr max_nr (native j)
      = Some (int (length evs), map (obj_of (native j)) evs @ drop (length evs) callbacks, m')"
    "ctls m' p = Some io'" "pool_inv io'" "used io' = used io - int (length evs)" "exc m' = exc (native j)"
    using poll_batch [OF c(2,3) assms(3-7)] by blast
  with c show ?thesis by (auto simp: java_poll_def)
qed

text \<open>C40: a context that could not be created is counted for ever. The constructor throws with the
  counter of contexts raised, so when the JVM ends, with no other context open, the shutdown hook
  does not run and the dumb file stays behind.\<close>

theorem failed_constructor_blocks_shutdown:
  assumes "new_LibaioContext env this qsize useSemaphore useFdatasync j = Some (Inl e, j')" and "contexts j = 0"
  shows "contexts j' = 1 \<and> totalMaxIO j' = totalMaxIO j
    \<and> native (shutdown_thread env j') = native j'"
  using assms by (auto simp: new_LibaioContext_def shutdown_thread_def checkShutdown_def bind_Some_iff
    Let_def split: option.splits)

text \<open>C29: \<open>close\<close> happens once. A second call changes nothing at all, and a closed context refuses
  reads and writes with an \<open>IOException\<close> before it touches the semaphore or the native layer.\<close>

theorem close_once:
  assumes "java_close env others returned c j = Some (e, c', j')"
  shows "lc_closed c' \<and> java_close env others2 returned2 c' j' = Some (None, c', j')
    \<and> java_submitWrite env i fd position nbytes buffer callback c' j' = Some (Some ContextIsClosed, c', j')
    \<and> java_submitRead env i fd position nbytes buffer callback c' j' = Some (Some ContextIsClosed, c', j')
    \<and> java_blocked_poll env others2 fuel c' j' = Some (False, None, c', j')"
proof -
  have "lc_closed c'"
    using assms by (auto simp: java_close_def tryAcquire_all_def bind_Some_iff Let_def
      split: if_splits option.splits)
  then show ?thesis
    by (simp add: java_close_def java_submitWrite_def java_submitRead_def java_blocked_poll_def)
qed

theorem java_poll_returns_permits_witness:
  "\<exists>callbacks' c' j' io'. java_poll sample_env [0, 0] 1 3 (sample_context 0)
      \<lparr>native = sample_poll_machine, totalMaxIO = 3, contexts = 1, shuttingDown = False\<rparr>
      = Some (Inr 2, callbacks', c', j')
    \<and> lc_ioSpace c' = Some 2 \<and> ctls (native j') 10 = Some io' \<and> used io' = 1"
proof -
  let ?j = "\<lparr>native = sample_poll_machine, totalMaxIO = 3, contexts = 1, shuttingDown = False\<rparr>"
  have "ready sample_poll_machine"
    by (auto simp: ready_def classes_loaded_def heap_ok_def unallocated_def uninit_ptr_def sample_poll_machine_def)
  then have "java_ctx sample_env 10 0 3 (sample_context 0) ?j"
    using sample_pool_inv
    by (simp add: java_ctx_def sample_context_def ctx_ok_def sample_poll_machine_def)
  then have "\<exists>callbacks' c' j' io'. java_poll sample_env [0, 0] 1 3 (sample_context 0) ?j
      = Some (Inr (int (length [sample_event 20 512, sample_event 21 (-5)])), callbacks', c', j')
    \<and> take (length [sample_event 20 512, sample_event 21 (-5)]) callbacks'
      = map (obj_of (native ?j)) [sample_event 20 512, sample_event 21 (-5)]
    \<and> lc_ioSpace c' = Some (0 + int (length [sample_event 20 512, sample_event 21 (-5)]))
    \<and> ctls (native j') 10 = Some io' \<and> pool_inv io'
    \<and> used io' = 3 - int (length [sample_event 20 512, sample_event 21 (-5)])"
    by (rule java_poll_returns_permits [where io = "sample_control 3"])
      (use sample_waiting sample_batch_ok(1) in \<open>simp_all add: sample_poll_machine_def\<close>)
  then show ?thesis by auto
qed

lemma sample_newContext_zero:
  "\<exists>m' x. newContext sample_env 1 0 empty_machine = Some (0, m') \<and> exc m' = Some x"
  by (simp add: newContext_def machine_simps uninit_control_def throwRuntimeExceptionErrorNo_def
    exceptionMessage_def message_at_def empty_machine_def)

theorem failed_constructor_blocks_shutdown_witness:
  "\<exists>e j'. new_LibaioContext sample_env 1 0 True True
      \<lparr>native = empty_machine, totalMaxIO = 0, contexts = 0, shuttingDown = False\<rparr> = Some (Inl e, j')
    \<and> contexts j' = 1 \<and> native (shutdown_thread sample_env j') = native j'"
proof -
  let ?j = "\<lparr>native = empty_machine, totalMaxIO = 0, contexts = 0, shuttingDown = False\<rparr>"
  obtain e j' where run: "new_LibaioContext sample_env 1 0 True True ?j = Some (Inl e, j')"
    using sample_newContext_zero by (auto simp: new_LibaioContext_def)
  with failed_constructor_blocks_shutdown [OF run] show ?thesis by auto
qed

theorem close_once_witness:
  "\<exists>e c' j'. java_close sample_env (\<lambda>m. m\<lparr>ctls := [10 \<mapsto> sample_control 0]\<rparr>) 0 (sample_context 3) (sample_jvm 0 1)
      = Some (e, c', j')
    \<and> java_close sample_env id 0 c' j' = Some (None, c', j')"
proof -
  obtain m' where d: "deleteContext sample_env (\<lambda>m. m\<lparr>ctls := [10 \<mapsto> sample_control 0]\<rparr>) 10
      (sample_machine 0 1) = Some m'" using sample_delete by blast
  have "\<exists>e c' j'. java_close sample_env (\<lambda>m. m\<lparr>ctls := [10 \<mapsto> sample_control 0]\<rparr>) 0
      (sample_context 3) (sample_jvm 0 1) = Some (e, c', j')"
    using d by (cases "exc m'") (simp_all add: java_close_def tryAcquire_all_def sample_context_def
      sample_jvm_def Let_def)
  then obtain e c' j' where run: "java_close sample_env (\<lambda>m. m\<lparr>ctls := [10 \<mapsto> sample_control 0]\<rparr>) 0
      (sample_context 3) (sample_jvm 0 1) = Some (e, c', j')" by blast
  with close_once [OF run, of id 0] show ?thesis by blast
qed

end
