(* ===== verification/JavaFile.thy ===== *)
theory JavaFile
  imports JavaContext
begin

section \<open>Files on the Java side\<close>

text \<open>
  The methods of \<open>LibaioContext\<close> that open files and the class \<open>LibaioFile\<close>, which passes its
  descriptor to the native functions. The field \<open>ctx\<close> of a file is null (0) for a file opened
  by \<open>openControlFile\<close>; the state of the context it refers to is an argument.
\<close>

record libaio_file =
  lf_open :: bool
  lf_ctx :: jobject
  lf_fd :: int

text \<open>A native method has returned: the exception it left pending, if any, is thrown in Java.\<close>

definition native_result :: "'a \<Rightarrow> 'w machine \<Rightarrow> 'w jvm \<Rightarrow> (java_error + 'a) \<times> 'w jvm" where
  "native_result r m j = (let (e, m) = take_exc m
     in (case e of None \<Rightarrow> Inr r | Some x \<Rightarrow> Inl (NativeError x), j\<lparr>native := m\<rparr>))"

definition new_LibaioFile :: "int \<Rightarrow> jobject \<Rightarrow> libaio_file" where
  "new_LibaioFile fd ctx = \<lparr>lf_open = False, lf_ctx = ctx, lf_fd = fd\<rparr>"

definition checkNotNull :: "'a option \<Rightarrow> string \<Rightarrow> java_error + 'a" where
  "checkNotNull arg text = (case arg of None \<Rightarrow> Inl (NullPointer text) | Some x \<Rightarrow> Inr x)"

text \<open>\<open>LibaioContext.open\<close> and what both callers make of its result.\<close>

definition open_native ::
  "'w env \<Rightarrow> jstring \<Rightarrow> bool \<Rightarrow> jobject \<Rightarrow> 'w jvm \<Rightarrow> ((java_error + libaio_file) \<times> 'w jvm) option" where
  "open_native env path direct ctx j = do {
     (res, m) \<leftarrow> open_file env path direct (native j);
     Some (native_result (new_LibaioFile res ctx) m j) }"

definition openFile ::
  "'w env \<Rightarrow> jobject \<Rightarrow> libaio_context \<Rightarrow> jstring option \<Rightarrow> bool \<Rightarrow> 'w jvm
    \<Rightarrow> ((java_error + libaio_file) \<times> 'w jvm) option" where
  "openFile env this c path direct j =
     (case checkNotNull path ''path'' of Inl e \<Rightarrow> Some (Inl e, j)
      | Inr path \<Rightarrow>
        (case checkNotNull (if lc_ioContext c = 0 then None else Some (lc_ioContext c)) ''IOContext'' of
           Inl e \<Rightarrow> Some (Inl e, j)
         | Inr _ \<Rightarrow> open_native env path direct this j))"

definition openControlFile ::
  "'w env \<Rightarrow> jstring option \<Rightarrow> bool \<Rightarrow> 'w jvm \<Rightarrow> ((java_error + libaio_file) \<times> 'w jvm) option" where
  "openControlFile env path direct j =
     (case checkNotNull path ''path'' of Inl e \<Rightarrow> Some (Inl e, j)
      | Inr path \<Rightarrow> open_native env path direct 0 j)"

text \<open>The counters that tests read, and clearing a buffer of the given limit.\<close>

definition getTotalMaxIO :: "'w jvm \<Rightarrow> int" where
  "getTotalMaxIO j = totalMaxIO j"

definition resetMaxAIO :: "'w jvm \<Rightarrow> 'w jvm" where
  "resetMaxAIO j = j\<lparr>totalMaxIO := 0\<rparr>"

definition java_memsetBuffer ::
  "'w env \<Rightarrow> jobject \<Rightarrow> int \<Rightarrow> 'w jvm \<Rightarrow> ((java_error + unit) \<times> 'w jvm) option" where
  "java_memsetBuffer env buffer limit j = do {
     m \<leftarrow> memsetBuffer env buffer limit (native j);
     Some (native_result () m j) }"

subsection \<open>LibaioFile\<close>

definition file_getBlockSize :: "'w env \<Rightarrow> libaio_file \<Rightarrow> 'w jvm \<Rightarrow> ((java_error + int) \<times> 'w jvm) option" where
  "file_getBlockSize env f j = do {
     (res, m) \<leftarrow> getBlockSizeFD env (lf_fd f) (native j);
     Some (native_result res m j) }"

definition file_lock :: "'w env \<Rightarrow> libaio_file \<Rightarrow> 'w jvm \<Rightarrow> bool \<times> 'w jvm" where
  "file_lock env f j = (let (ok, m) = lock_file env (lf_fd f) (native j) in (ok, j\<lparr>native := m\<rparr>))"

definition file_close ::
  "'w env \<Rightarrow> libaio_file \<Rightarrow> 'w jvm \<Rightarrow> ((java_error + unit) \<times> libaio_file \<times> 'w jvm) option" where
  "file_close env f j = do {
     let f = f\<lparr>lf_open := False\<rparr>;
     m \<leftarrow> close_file env (lf_fd f) (native j);
     let (r, j) = native_result () m j;
     Some (r, f, j) }"

definition file_getSize :: "'w env \<Rightarrow> libaio_file \<Rightarrow> 'w jvm \<Rightarrow> ((java_error + int) \<times> 'w jvm) option" where
  "file_getSize env f j = do {
     (res, m) \<leftarrow> getSize env (lf_fd f) (native j);
     Some (native_result res m j) }"

definition file_write ::
  "'w env \<Rightarrow> bool \<Rightarrow> libaio_file \<Rightarrow> int \<Rightarrow> int \<Rightarrow> jobject \<Rightarrow> jobject \<Rightarrow> libaio_context \<Rightarrow> 'w jvm
    \<Rightarrow> (java_error option \<times> libaio_context \<times> 'w jvm) option" where
  "file_write env interrupted f position nbytes buffer callback c j =
     (if lf_ctx f = 0 then Some (Some (NullPointer ''ctx''), c, j)
      else java_submitWrite env interrupted (lf_fd f) position nbytes buffer callback c j)"

definition file_read ::
  "'w env \<Rightarrow> bool \<Rightarrow> libaio_file \<Rightarrow> int \<Rightarrow> int \<Rightarrow> jobject \<Rightarrow> jobject \<Rightarrow> libaio_context \<Rightarrow> 'w jvm
    \<Rightarrow> (java_error option \<times> libaio_context \<times> 'w jvm) option" where
  "file_read env interrupted f position nbytes buffer callback c j =
     (if lf_ctx f = 0 then Some (Some (NullPointer ''ctx''), c, j)
      else java_submitRead env interrupted (lf_fd f) position nbytes buffer callback c j)"

definition file_newBuffer :: "'w env \<Rightarrow> int \<Rightarrow> 'w jvm \<Rightarrow> ((java_error + jobject) \<times> 'w jvm) option" where
  "file_newBuffer env nbytes j = do {
     (buf, m) \<leftarrow> newAlignedBuffer env nbytes (4 * 1024) (native j);
     Some (native_result buf m j) }"

definition file_fallocate :: "'w env \<Rightarrow> libaio_file \<Rightarrow> int \<Rightarrow> 'w jvm \<Rightarrow> ((java_error + unit) \<times> 'w jvm) option" where
  "file_fallocate env f nbytes j = do {
     m \<leftarrow> fallocate_file env (lf_fd f) nbytes (native j);
     Some (native_result () m j) }"

text \<open>\<open>fill\<close>: an \<open>OutOfMemoryError\<close> of the native function is caught and \<open>fallocate\<close> used instead.\<close>

definition file_fill :: "'w env \<Rightarrow> libaio_file \<Rightarrow> int \<Rightarrow> int \<Rightarrow> 'w jvm \<Rightarrow> ((java_error + unit) \<times> 'w jvm) option" where
  "file_fill env f alignment nbytes j = do {
     m \<leftarrow> fill env (lf_fd f) alignment nbytes (native j);
     let (r, j) = native_result () m j;
     if r = Inl (NativeError OutOfMemoryError) then file_fallocate env f nbytes j
     else Some (r, j) }"

subsection \<open>What fill does to the log and the pending exception\<close>

text \<open>Only an \<open>IOException\<close> becomes pending, and no \<open>fallocate\<close> is made.\<close>

definition only_io :: "'w machine \<Rightarrow> 'w machine \<Rightarrow> bool" where
  "only_io m m' \<longleftrightarrow> (exc m' = exc m \<or> (\<exists>text. exc m' = Some (IOException text)))
     \<and> (\<exists>l. log m' = log m @ l \<and> (\<forall>fd n. EFallocate fd n \<notin> set l))"

lemma only_io_refl: "only_io m m"
  by (simp add: only_io_def)

lemma only_io_trans: "only_io m1 m2 \<Longrightarrow> only_io m2 m3 \<Longrightarrow> only_io m1 m3"
  by (auto simp: only_io_def)

lemma only_io_lseek: "only_io m (lseek0 env fd m)"
  by (simp add: only_io_def lseek0_def emit_def)

lemma only_io_write: "write_mega env fd n m = (res, m') \<Longrightarrow> only_io m m'"
  by (auto simp: write_mega_def only_io_def emit_def Let_def split: prod.splits)

lemma only_io_fill_loop: "fill_loop env fd k m = (ok, m') \<Longrightarrow> only_io m m'"
proof (induction k arbitrary: m)
  case (Suc k)
  obtain res m1 where w: "write_mega env fd ONE_MEGA m = (res, m1)" by fastforce
  with Suc only_io_write [OF w] show ?case
    by (auto split: if_splits intro: only_io_trans)
qed (simp add: only_io_refl)

lemma only_io_verifyBuffer:
  assumes "verifyBuffer env alignment m = Some (r, m')"
  shows "only_io m m'"
proof -
  have unlocked: "oneMegaMutex m = MUnlocked"
    using assms by (simp add: verifyBuffer_def mutex_lock_def split: if_splits)
  show ?thesis
  proof (cases "oneMegaBuffer m = NULL")
    case True
    obtain res w where al: "env_posix_memalign env (size_t alignment) (size_t ONE_MEGA) (world m) = (res, w)"
      by fastforce
    show ?thesis
    proof (cases "res = 0")
      case True
      with assms unlocked al \<open>oneMegaBuffer m = NULL\<close> show ?thesis
        by (simp add: verifyBuffer_def posix_memalign_def memset0_def only_io_def ONE_MEGA_def size_t_def) auto
    next
      case False
      with assms unlocked al \<open>oneMegaBuffer m = NULL\<close> show ?thesis
        by (simp add: verifyBuffer_def posix_memalign_def emit_def only_io_def) auto
    qed
  next
    case False
    with assms unlocked show ?thesis by (simp add: verifyBuffer_def only_io_def) auto
  qed
qed

lemma only_io_throw: "throwIOException msg m = Some m' \<Longrightarrow> only_io m m'"
  by (auto simp: throwIOException_def ThrowNew_def only_io_def split: if_splits)

lemma only_io_fill:
  assumes "fill env fd alignment nbytes m = Some m'"
  shows "only_io m m'"
proof -
  obtain r m1 where v: "verifyBuffer env alignment m = Some (r, m1)"
    using assms by (auto simp: fill_def bind_Some_iff Let_def)
  obtain ok m2 where l: "fill_loop env fd (nat (to_int32 (c_div nbytes ONE_MEGA))) (lseek0 env fd m1) = (ok, m2)" by fastforce
  obtain res m3 where w: "write_mega env fd (to_int32 (c_rem nbytes ONE_MEGA)) m2 = (res, m3)" by fastforce
  have upto2: "only_io m m2"
    using only_io_verifyBuffer [OF v] only_io_lseek only_io_fill_loop [OF l] by (blast intro: only_io_trans)
  have "only_io m2 m'"
    using assms v l w only_io_write [OF w] only_io_throw only_io_lseek
      only_io_trans [OF only_io_write [OF w] only_io_lseek] only_io_trans [OF only_io_write [OF w] only_io_throw]
    unfolding fill_def
    by (auto simp: Let_def split: if_splits intro: only_io_trans)
  with upto2 show ?thesis by (rule only_io_trans)
qed

text \<open>C35: the fallback of \<open>LibaioFile.fill\<close> is dead code. Whatever the allocator, the kernel and the file do,
  a call that returns has made no \<open>fallocate\<close>, and the only exception it can throw is an
  \<open>IOException\<close>: the \<open>OutOfMemoryError\<close> that its handler waits for is never raised.\<close>

theorem file_fill_never_falls_back:
  assumes "exc (native j) = None" and "file_fill env f alignment nbytes j = Some (r, j')"
  shows "(r = Inr () \<or> (\<exists>text. r = Inl (NativeError (IOException text))))
    \<and> (\<exists>l. log (native j') = log (native j) @ l \<and> (\<forall>fd n. EFallocate fd n \<notin> set l))
    \<and> exc (native j') = None"
proof -
  obtain m where m: "fill env (lf_fd f) alignment nbytes (native j) = Some m"
    using assms(2) by (auto simp: file_fill_def bind_Some_iff)
  from only_io_fill [OF m] assms(1)
  have "exc m = None \<or> (\<exists>text. exc m = Some (IOException text))"
    and "\<exists>l. log m = log (native j) @ l \<and> (\<forall>fd n. EFallocate fd n \<notin> set l)"
    by (simp_all add: only_io_def)
  with assms(2) m show ?thesis
    by (auto simp: file_fill_def native_result_def)
qed

theorem file_fill_never_falls_back_witness:
  "\<exists>e j'. file_fill sample_env \<lparr>lf_open = False, lf_ctx = 1, lf_fd = 6\<rparr> 0 8192 (sample_jvm 0 1) = Some (Inl e, j')
    \<and> (\<exists>text. e = NativeError (IOException text))"
proof -
  let ?f = "\<lparr>lf_open = False, lf_ctx = 1, lf_fd = 6\<rparr>"
  have "heap_ok (sample_machine 0 1)" using sample_ready by (simp add: ready_def)
  moreover have "size_t 0 = 0" by (simp add: size_t_def)
  ultimately obtain m t where "fill sample_env 6 0 8192 (sample_machine 0 1) = Some m"
    "exc m = Some (IOException t)"
    using fill_null_buffer [of "sample_machine 0 1" sample_env 0 22 1 6 8192] by auto
  then obtain e j' where run: "file_fill sample_env ?f 0 8192 (sample_jvm 0 1) = Some (Inl e, j')"
    by (simp add: file_fill_def native_result_def sample_jvm_def)
  with file_fill_never_falls_back [OF _ run] show ?thesis by (auto simp: sample_jvm_def)
qed

end
