(* ===== verification/CallbackCache.thy ===== *)
theory CallbackCache
  imports Pool_Interface
begin

section \<open>The Java cache of callback objects\<close>

text \<open>
  \<open>CallbackCache\<close>: a cyclic array of reusable callbacks, the second provider of the pool
  interface. Unlike the IOCB pool it starts empty, drops what does not fit, and clears the cells
  it hands out. Objects are numbers with 0 for \<open>null\<close>; \<open>None\<close> is an access outside the array,
  which the theorems exclude. Both methods hold \<open>lock\<close> throughout, so each is one step.
\<close>

record callback_cache =
  cc_pool :: "nat list"
  cc_put :: int
  cc_get :: int
  cc_available :: int
  cc_size :: int

datatype cache_result = CObject nat | CNull | CNullPointerException

definition new_cache :: "int \<Rightarrow> callback_cache option" where
  "new_cache n = (if n < 0 then None
     else Some \<lparr>cc_pool = replicate (nat n) 0, cc_put = 0, cc_get = 0, cc_available = 0, cc_size = n\<rparr>)"

definition cache_get :: "callback_cache \<Rightarrow> (cache_result \<times> callback_cache) option" where
  "cache_get c =
     (if cc_available c \<le> 0 then Some (CNull, c)
      else do {
        retValue \<leftarrow> arr_get (cc_pool c) (cc_get c);
        pool \<leftarrow> arr_set (cc_pool c) (cc_get c) 0;
        let c = c\<lparr>cc_pool := pool\<rparr>;
        if retValue = 0 then Some (CNullPointerException, c)
        else do {
          let c = c\<lparr>cc_available := cc_available c - 1, cc_get := cc_get c + 1\<rparr>;
          let c = (if cc_get c \<ge> cc_size c then c\<lparr>cc_get := 0\<rparr> else c);
          Some (CObject retValue, c) } })"

text \<open>\<open>put\<close>: whether the result is the cache (and not null), and the cache after the call.\<close>

definition cache_put :: "callback_cache \<Rightarrow> nat \<Rightarrow> (bool \<times> callback_cache) option" where
  "cache_put c callback =
     (if callback = 0 then Some (False, c)
      else if cc_available c < cc_size c then do {
        let c = c\<lparr>cc_available := cc_available c + 1\<rparr>;
        pool \<leftarrow> arr_set (cc_pool c) (cc_put c) callback;
        let c = c\<lparr>cc_pool := pool, cc_put := cc_put c + 1\<rparr>;
        let c = (if cc_put c \<ge> cc_size c then c\<lparr>cc_put := 0\<rparr> else c);
        Some (True, c) }
      else Some (True, c))"

subsection \<open>The cache as a queue\<close>

definition cache_free :: "callback_cache \<Rightarrow> nat list" where
  "cache_free c = ring_slice (cc_pool c) (nat (cc_get c)) (nat (cc_available c))"

definition cache_inv :: "callback_cache \<Rightarrow> bool" where
  "cache_inv c \<longleftrightarrow> int (length (cc_pool c)) = cc_size c
   \<and> 0 \<le> cc_available c \<and> cc_available c \<le> cc_size c
   \<and> 0 \<le> cc_get c \<and> cc_get c < cc_size c \<and> 0 \<le> cc_put c \<and> cc_put c < cc_size c
   \<and> cc_put c = (cc_get c + cc_available c) mod cc_size c \<and> 0 \<notin> set (cache_free c)"

lemma length_cache_free: "cache_inv c \<Longrightarrow> int (length (cache_free c)) = cc_available c"
  by (simp add: cache_inv_def cache_free_def)

lemma cache_free_Nil_iff: "cache_inv c \<Longrightarrow> cache_free c = [] \<longleftrightarrow> cc_available c = 0"
  using length_cache_free [of c] by auto

lemma cache_put_index:
  assumes "cache_inv c"
  shows "nat (cc_put c) = (nat (cc_get c) + nat (cc_available c)) mod length (cc_pool c)"
proof -
  from assms have "int (nat (cc_put c)) = int ((nat (cc_get c) + nat (cc_available c)) mod length (cc_pool c))"
    by (auto simp: cache_inv_def zmod_int)
  then show ?thesis by (simp only: of_nat_eq_iff)
qed

lemma cache_get_some:
  assumes inv: "cache_inv c" and free: "cache_free c = x # xs"
  shows "\<exists>c'. cache_get c = Some (CObject x, c') \<and> cache_inv c' \<and> cache_free c' = xs \<and> cc_size c' = cc_size c"
proof -
  let ?k = "nat (cc_available c - 1)" and ?g = "nat (cc_get c)"
  from inv free have av: "0 < cc_available c" using cache_free_Nil_iff [of c] by (simp add: cache_inv_def)
  then have n: "nat (cc_available c) = Suc ?k" by simp
  from inv have g: "?g < length (cc_pool c)" by (auto simp: cache_inv_def)
  from free have x: "x = cc_pool c ! ?g" and xs: "xs = ring_slice (cc_pool c) (Suc ?g) ?k"
    using g by (simp_all add: cache_free_def n ring_slice_Cons)
  from inv free have x0: "x \<noteq> 0" by (auto simp: cache_inv_def)
  have wrap: "(if cc_size c \<le> cc_get c + 1 then 0 else cc_get c + 1) = (cc_get c + 1) mod cc_size c"
    using inv by (intro wrap_succ_int) (simp_all add: cache_inv_def)
  let ?c = "c\<lparr>cc_pool := (cc_pool c)[?g := 0], cc_available := cc_available c - 1,
    cc_get := (cc_get c + 1) mod cc_size c\<rparr>"
  have "0 \<le> cc_get c" "cc_get c < int (length (cc_pool c))" using inv by (simp_all add: cache_inv_def)
  with av x x0 wrap have get: "cache_get c = Some (CObject x, ?c)"
    by (cases c) (auto simp: cache_get_def Let_def split: if_splits)
  have small: "?k < length (cc_pool c)" using inv av by (auto simp: cache_inv_def)
  have len: "length (cc_pool c) = nat (cc_size c)" using inv by (auto simp: cache_inv_def)
  have idx: "nat ((cc_get c + 1) mod cc_size c) = Suc ?g mod length (cc_pool c)"
    using inv len by (simp add: cache_inv_def nat_mod_distrib nat_add_distrib)
  have free': "cache_free ?c = xs"
    using ring_slice_update_before [OF g small, of 0] ring_slice_mod [of "(cc_pool c)[?g := 0]" "Suc ?g" ?k] xs
    by (simp add: cache_free_def idx)
  have "(cc_get c + cc_available c) mod cc_size c
      = ((cc_get c + 1) mod cc_size c + (cc_available c - 1)) mod cc_size c"
    unfolding mod_add_left_eq by (rule arg_cong) simp
  with inv av free free' get show ?thesis by (auto simp: cache_inv_def)
qed

lemma cache_put_some:
  assumes inv: "cache_inv c" and room: "cc_available c < cc_size c" and x: "x \<noteq> 0"
  shows "\<exists>c'. cache_put c x = Some (True, c') \<and> cache_inv c' \<and> cache_free c' = cache_free c @ [x]
    \<and> cc_size c' = cc_size c"
proof -
  let ?k = "nat (cc_available c)"
  have wrap: "(if cc_size c \<le> cc_put c + 1 then 0 else cc_put c + 1) = (cc_put c + 1) mod cc_size c"
    using inv by (intro wrap_succ_int) (simp_all add: cache_inv_def)
  let ?c = "c\<lparr>cc_available := cc_available c + 1, cc_pool := (cc_pool c)[nat (cc_put c) := x],
    cc_put := (cc_put c + 1) mod cc_size c\<rparr>"
  have "0 \<le> cc_put c" "cc_put c < int (length (cc_pool c))" using inv by (simp_all add: cache_inv_def)
  with room x wrap have put: "cache_put c x = Some (True, ?c)"
    by (cases c) (auto simp: cache_put_def Let_def split: if_splits)
  have small: "?k < length (cc_pool c)" using inv room by (auto simp: cache_inv_def)
  have n: "nat (cc_available c + 1) = Suc ?k" using inv by (simp add: cache_inv_def nat_add_distrib)
  have free': "cache_free ?c = cache_free c @ [x]"
    using ring_slice_update_end [OF cache_put_index [OF inv] small, of x]
    by (simp add: cache_free_def n)
  have "(cc_put c + 1) mod cc_size c = (cc_get c + (cc_available c + 1)) mod cc_size c"
    using inv mod_add_left_eq [of "cc_get c + cc_available c" "cc_size c" 1]
    by (simp add: cache_inv_def algebra_simps)
  with inv room x free' put show ?thesis by (auto simp: cache_inv_def)
qed

subsection \<open>The cache provides the interface\<close>

definition cache_get_opt :: "callback_cache \<Rightarrow> (nat option \<times> callback_cache) option" where
  "cache_get_opt c = do {
     (r, c') \<leftarrow> cache_get c;
     case r of CObject x \<Rightarrow> Some (Some x, c') | CNull \<Rightarrow> Some (None, c') | CNullPointerException \<Rightarrow> None }"

definition cache_put_opt :: "callback_cache \<Rightarrow> nat \<Rightarrow> callback_cache option" where
  "cache_put_opt c x = map_option snd (cache_put c x)"

definition cache_cap :: "callback_cache \<Rightarrow> nat" where
  "cache_cap c = nat (cc_size c)"

interpretation callback_cache:
  bounded_pool cache_get_opt cache_put_opt cache_free cache_cap cache_inv "\<lambda>x. x \<noteq> 0"
proof unfold_locales
  fix c assume "cache_inv c" "cache_free c = []"
  then show "cache_get_opt c = Some (None, c)"
    by (simp add: cache_get_opt_def cache_get_def cache_free_Nil_iff)
next
  fix c x xs assume "cache_inv c" "cache_free c = x # xs"
  from cache_get_some [OF this] show "\<exists>c'. cache_get_opt c = Some (Some x, c') \<and> cache_inv c'
      \<and> cache_free c' = xs \<and> cache_cap c' = cache_cap c"
    by (auto simp: cache_get_opt_def cache_cap_def)
next
  fix c and x :: nat assume inv: "cache_inv c" and x: "x \<noteq> 0" and "length (cache_free c) < cache_cap c"
  then have "cc_available c < cc_size c" using length_cache_free [OF inv] by (simp add: cache_cap_def)
  from cache_put_some [OF inv this x] show "\<exists>c'. cache_put_opt c x = Some c' \<and> cache_inv c'
      \<and> cache_free c' = cache_free c @ [x] \<and> cache_cap c' = cache_cap c"
    by (auto simp: cache_put_opt_def cache_cap_def)
qed

subsection \<open>Properties of the cache\<close>

text \<open>C23: the cache is a first-in first-out queue. A sequence of \<open>get\<close> and \<open>put\<close> on it that stays
  within its size gives the results of the same sequence on a list, and the objects that come out,
  followed by those that stay, are those that were there followed by those put in.\<close>

theorem cache_refines_queue:
  assumes "cache_inv c" and "within (cache_cap c) ops (length (cache_free c))"
    and "\<forall>x \<in> set (puts_of ops). x \<noteq> 0"
  shows "\<exists>rs c'. run_pool cache_get_opt cache_put_opt ops c = Some (rs, c')
    \<and> rs = fst (run_list ops (cache_free c)) \<and> cache_inv c'
    \<and> gots_of rs @ cache_free c' = cache_free c @ puts_of ops"
  using callback_cache.run_refines_list [OF assms] callback_cache.run_fifo [OF assms] by auto

lemma new_cache_inv:
  assumes "0 < n"
  shows "\<exists>c. new_cache n = Some c \<and> cache_inv c \<and> cache_free c = [] \<and> cc_size c = n"
  using assms by (simp add: new_cache_def cache_inv_def cache_free_def)

theorem cache_refines_queue_witness:
  "\<exists>c rs c'. new_cache 2 = Some c
    \<and> run_pool cache_get_opt cache_put_opt [PPut 7, PPut 8, PGet, PPut 9, PGet, PGet, PGet] c = Some (rs, c')
    \<and> rs = [Some 7, Some 8, Some 9, None] \<and> cache_inv c'"
proof -
  obtain c where c: "new_cache 2 = Some c" "cache_inv c" "cache_free c = []" "cc_size c = 2"
    using new_cache_inv [of 2] by auto
  with cache_refines_queue [OF c(2), of "[PPut 7, PPut 8, PGet, PPut 9, PGet, PGet, PGet]"]
  show ?thesis by (auto simp: cache_cap_def)
qed

text \<open>Each method is safe in every state the cache can reach, whatever it is given. \<open>put\<close> refuses
  null, drops a callback that does not fit, and otherwise appends it; \<open>get\<close> returns null exactly
  on an empty cache and never throws its \<open>NullPointerException\<close>; the invariant is kept.\<close>

theorem cache_operations_safe:
  assumes "cache_inv c"
  shows "(\<exists>r c1. cache_get c = Some (r, c1) \<and> cache_inv c1 \<and> r \<noteq> CNullPointerException
      \<and> (r = CNull \<longleftrightarrow> cache_free c = []) \<and> (r = CNull \<longrightarrow> c1 = c))
    \<and> (\<exists>c2. cache_put c x = Some (x \<noteq> 0, c2) \<and> cache_inv c2
      \<and> cache_free c2 = (if x \<noteq> 0 \<and> length (cache_free c) < cache_cap c then cache_free c @ [x] else cache_free c))"
proof
  show "\<exists>r c1. cache_get c = Some (r, c1) \<and> cache_inv c1 \<and> r \<noteq> CNullPointerException
      \<and> (r = CNull \<longleftrightarrow> cache_free c = []) \<and> (r = CNull \<longrightarrow> c1 = c)"
  proof (cases "cache_free c")
    case Nil
    with assms show ?thesis by (simp add: cache_get_def cache_free_Nil_iff)
  next
    case (Cons y ys)
    from cache_get_some [OF assms this] Cons show ?thesis by auto
  qed
  have room: "length (cache_free c) < cache_cap c \<longleftrightarrow> cc_available c < cc_size c"
    using length_cache_free [OF assms] by (auto simp: cache_cap_def)
  show "\<exists>c2. cache_put c x = Some (x \<noteq> 0, c2) \<and> cache_inv c2
      \<and> cache_free c2 = (if x \<noteq> 0 \<and> length (cache_free c) < cache_cap c then cache_free c @ [x] else cache_free c)"
  proof (cases "x \<noteq> 0 \<and> cc_available c < cc_size c")
    case True
    with cache_put_some [OF assms, of x] room show ?thesis by auto
  next
    case False
    with assms room show ?thesis by (auto simp: cache_put_def)
  qed
qed

theorem cache_operations_safe_witness:
  "\<exists>c c2. new_cache 1 = Some c \<and> cache_get c = Some (CNull, c) \<and> cache_put c 5 = Some (True, c2)
    \<and> cache_free c2 = [5]"
proof -
  obtain c where c: "new_cache 1 = Some c" "cache_inv c" "cache_free c = []" "cc_size c = 1"
    using new_cache_inv [of 1] by auto
  with cache_operations_safe [OF c(2), of 5] show ?thesis by (auto simp: cache_cap_def)
qed

end
