(* ===== verification/Transition.thy ===== *)
theory Transition
  imports Main
begin

section \<open>Runs of a step relation\<close>

text \<open>
  What the two concurrent models share: an invariant of the steps holds along every run, and a
  relation whose steps lower a rank has only runs of bounded length, each of which can be
  continued to an end. \<open>Interleaving\<close> and \<open>RingConcurrent\<close> interpret the locales with their steps.
\<close>

locale invariant_system =
  fixes step :: "'s \<Rightarrow> 's \<Rightarrow> bool"
    and inv :: "'s \<Rightarrow> bool"
  assumes step_inv: "step s t \<Longrightarrow> inv s \<Longrightarrow> inv t"
begin

lemma run_inv:
  assumes "step\<^sup>*\<^sup>* s t" and "inv s"
  shows "inv t"
  using assms by (induction rule: rtranclp_induct) (auto intro: step_inv)

end

locale ranked_system =
  fixes step :: "'s \<Rightarrow> 's \<Rightarrow> bool"
    and rank :: "'s \<Rightarrow> nat"
  assumes rank_less: "step s t \<Longrightarrow> rank t < rank s"
begin

lemma run_bound: "(step ^^ n) s t \<Longrightarrow> n + rank t \<le> rank s"
proof (induction n arbitrary: t)
  case (Suc n)
  then obtain u where "(step ^^ n) s u" "step u t" by auto
  with Suc.IH [of u] rank_less [of u t] show ?case by simp
qed simp

lemma run_ends: "\<exists>t. step\<^sup>*\<^sup>* s t \<and> (\<nexists>u. step t u)"
proof (induction "rank s" arbitrary: s rule: less_induct)
  case less
  show ?case
  proof (cases "\<exists>u. step s u")
    case True
    then obtain u where u: "step s u" by blast
    from less [of u] rank_less [OF u] obtain t where "step\<^sup>*\<^sup>* u t" "\<nexists>v. step t v" by blast
    with u show ?thesis by (meson converse_rtranclp_into_rtranclp)
  qed blast
qed

end

end
