(* ===== verification/Interleaving.thy ===== *)
theory Interleaving
  imports Machine Transition "HOL-Library.Multiset"
begin

section \<open>Submitters, kernel and poller at the same time\<close>

text \<open>
  Any number of threads submit requests on one context while the kernel completes them and one
  thread runs \<open>blockedPoll\<close>. \<open>iocbLock\<close> makes \<open>getIOCB\<close> and \<open>putIOCB\<close> atomic, so a run is a
  sequence of the steps below, one per access to what the threads share: the pool, the user data
  of the control blocks, the global references and the completion ring. A control block is in
  one place at a time: free in the pool, held by a submitter (just taken, armed with its
  callback, or refused by the kernel and about to go back), with the kernel, in the ring, in the
  batch the poller has reaped, or in the hands of the poller.

  \<open>accepted\<close> and \<open>delivered\<close> record the callbacks of the requests the kernel took and of the calls
  of \<open>done\<close>; \<open>warned\<close> records that the poller met a control block without user data, which it takes
  for a duplicate completion.
\<close>

datatype poller_pc = PIdle | PCleared addr nat | PReturned nat | PCalled nat

record system =
  sys_pool :: io_control
  sys_data :: "addr \<Rightarrow> cookie"
  sys_refs :: "nat \<rightharpoonup> jobject"
  taken :: "addr multiset"
  armed :: "addr multiset"
  refused :: "addr multiset"
  in_kernel :: "addr multiset"
  in_ring :: "addr list"
  in_batch :: "addr list"
  poller :: poller_pc
  accepted :: "jobject multiset"
  delivered :: "jobject list"
  warned :: bool

text \<open>
  A submitter runs \<open>submitWrite\<close> or \<open>submitRead\<close>: \<open>getIOCB\<close>, which may find the pool empty;
  \<open>io_prep_pwrite\<close> or \<open>io_prep_pread\<close> and the user data with \<open>NewGlobalRef\<close>; \<open>io_submit\<close>,
  accepted, or refused with \<open>DeleteGlobalRef\<close>; after a refusal \<open>putIOCB\<close>.
\<close>

inductive submitter_step :: "system \<Rightarrow> system \<Rightarrow> bool" where
  take: "getIOCB (sys_pool s) = Some (q, c) \<Longrightarrow> q \<noteq> NULL \<Longrightarrow>
    submitter_step s (s\<lparr>sys_pool := c, taken := add_mset q (taken s)\<rparr>)"
| full: "getIOCB (sys_pool s) = Some (NULL, c) \<Longrightarrow> submitter_step s (s\<lparr>sys_pool := c\<rparr>)"
| arm: "q \<in># taken s \<Longrightarrow> h \<noteq> 0 \<Longrightarrow> sys_refs s h = None \<Longrightarrow>
    submitter_step s (s\<lparr>taken := taken s - {#q#}, armed := add_mset q (armed s),
      sys_data := (sys_data s)(q := DRef h), sys_refs := (sys_refs s)(h \<mapsto> obj)\<rparr>)"
| accept: "q \<in># armed s \<Longrightarrow> sys_data s q = DRef h \<Longrightarrow> sys_refs s h = Some obj \<Longrightarrow>
    submitter_step s (s\<lparr>armed := armed s - {#q#}, in_kernel := add_mset q (in_kernel s),
      accepted := add_mset obj (accepted s)\<rparr>)"
| refuse: "q \<in># armed s \<Longrightarrow> sys_data s q = DRef h \<Longrightarrow>
    submitter_step s (s\<lparr>armed := armed s - {#q#}, refused := add_mset q (refused s),
      sys_refs := (sys_refs s)(h := None)\<rparr>)"
| give_back: "q \<in># refused s \<Longrightarrow> putIOCB (sys_pool s) q = Some c \<Longrightarrow>
    submitter_step s (s\<lparr>refused := refused s - {#q#}, sys_pool := c\<rparr>)"

text \<open>The kernel, which belongs to the environment: a completion enters the ring, once per request.\<close>

inductive kernel_step :: "system \<Rightarrow> system \<Rightarrow> bool" where
  complete: "q \<in># in_kernel s \<Longrightarrow>
    kernel_step s (s\<lparr>in_kernel := in_kernel s - {#q#}, in_ring := in_ring s @ [q]\<rparr>)"

text \<open>
  The poller runs \<open>blockedPoll\<close>: \<open>ringio_get_events\<close> into the batch; for each event the user
  data is read and cleared, and when there was some the control block is put back, \<open>done\<close> called
  and the reference deleted; otherwise the event counts as a duplicate.
\<close>

inductive poller_step :: "system \<Rightarrow> system \<Rightarrow> bool" where
  reap: "poller s = PIdle \<Longrightarrow> in_batch s = [] \<Longrightarrow> in_ring s = xs @ ys \<Longrightarrow> xs \<noteq> [] \<Longrightarrow>
    poller_step s (s\<lparr>in_batch := xs, in_ring := ys\<rparr>)"
| clear: "poller s = PIdle \<Longrightarrow> in_batch s = q # qs \<Longrightarrow> sys_data s q = DRef h \<Longrightarrow>
    poller_step s (s\<lparr>in_batch := qs, sys_data := (sys_data s)(q := DNull), poller := PCleared q h\<rparr>)"
| duplicate: "poller s = PIdle \<Longrightarrow> in_batch s = q # qs \<Longrightarrow> sys_data s q = DNull \<Longrightarrow>
    poller_step s (s\<lparr>in_batch := qs, warned := True\<rparr>)"
| put_back: "poller s = PCleared q h \<Longrightarrow> putIOCB (sys_pool s) q = Some c \<Longrightarrow>
    poller_step s (s\<lparr>sys_pool := c, poller := PReturned h\<rparr>)"
| call_done: "poller s = PReturned h \<Longrightarrow> sys_refs s h = Some obj \<Longrightarrow>
    poller_step s (s\<lparr>delivered := delivered s @ [obj], poller := PCalled h\<rparr>)"
| drop: "poller s = PCalled h \<Longrightarrow> sys_refs s h \<noteq> None \<Longrightarrow>
    poller_step s (s\<lparr>sys_refs := (sys_refs s)(h := None), poller := PIdle\<rparr>)"

datatype actor = Submitter | Kernel | Poller

fun sys_step :: "actor \<Rightarrow> system \<Rightarrow> system \<Rightarrow> bool" where
  "sys_step Submitter = submitter_step"
| "sys_step Kernel = kernel_step"
| "sys_step Poller = poller_step"

inductive_cases kernel_stepE: "kernel_step s t"

lemmas submitter_steps = submitter_step.intros [folded sys_step.simps]
lemmas take = submitter_steps(1) and full = submitter_steps(2) and arm = submitter_steps(3)
  and accept = submitter_steps(4) and refuse = submitter_steps(5) and give_back = submitter_steps(6)
lemmas complete = kernel_step.intros [folded sys_step.simps]
lemmas poller_steps = poller_step.intros [folded sys_step.simps]
lemmas reap = poller_steps(1) and clear = poller_steps(2) and duplicate = poller_steps(3)
  and hand_back = poller_steps(4) and call_done = poller_steps(5) and drop = poller_steps(6)

declare sys_step.simps [simp del]

subsection \<open>The invariant\<close>

text \<open>Where the control blocks are.\<close>

fun poller_block :: "poller_pc \<Rightarrow> addr multiset" where
  "poller_block (PCleared q h) = {#q#}"
| "poller_block pc = {#}"

fun poller_ref :: "poller_pc \<Rightarrow> nat option" where
  "poller_ref PIdle = None"
| "poller_ref (PCleared q h) = Some h"
| "poller_ref (PReturned h) = Some h"
| "poller_ref (PCalled h) = Some h"

definition away :: "system \<Rightarrow> addr multiset" where
  "away s = taken s + armed s + refused s + in_kernel s + mset (in_ring s) + mset (in_batch s)
     + poller_block (poller s)"

definition places :: "system \<Rightarrow> addr multiset" where
  "places s = mset (pool_free (sys_pool s)) + away s"

text \<open>The blocks whose user data is a callback, and those of accepted requests.\<close>

definition flying :: "system \<Rightarrow> addr multiset" where
  "flying s = in_kernel s + mset (in_ring s) + mset (in_batch s)"

definition owner :: "(addr \<Rightarrow> cookie) \<Rightarrow> (nat \<rightharpoonup> jobject) \<Rightarrow> addr \<Rightarrow> jobject option" where
  "owner data refs q = (case data q of DRef h \<Rightarrow> refs h | _ \<Rightarrow> None)"

fun poller_owes :: "(nat \<rightharpoonup> jobject) \<Rightarrow> poller_pc \<Rightarrow> jobject option multiset" where
  "poller_owes refs (PCleared q h) = {#refs h#}"
| "poller_owes refs (PReturned h) = {#refs h#}"
| "poller_owes refs pc = {#}"

text \<open>
  Every block in \<open>Q\<close> points to a live reference of its own, and the reference that the poller
  holds is live and no block's.
\<close>

definition wired :: "(addr \<Rightarrow> cookie) \<Rightarrow> (nat \<rightharpoonup> jobject) \<Rightarrow> addr set \<Rightarrow> nat option \<Rightarrow> bool" where
  "wired data refs Q p \<longleftrightarrow> (\<forall>q \<in> Q. \<exists>h. data q = DRef h \<and> refs h \<noteq> None) \<and> inj_on data Q
     \<and> (\<forall>h. p = Some h \<longrightarrow> refs h \<noteq> None \<and> DRef h \<notin> data ` Q)"

definition ledger :: "system \<Rightarrow> bool" where
  "ledger s \<longleftrightarrow> image_mset Some (accepted s) = image_mset Some (mset (delivered s))
     + image_mset (owner (sys_data s) (sys_refs s)) (flying s) + poller_owes (sys_refs s) (poller s)"

definition sys_inv :: "addr list \<Rightarrow> system \<Rightarrow> bool" where
  "sys_inv bs s \<longleftrightarrow> pool_inv (sys_pool s) \<and> distinct bs \<and> NULL \<notin> set bs
   \<and> int (length bs) = queueSize (sys_pool s) \<and> places s = mset bs
   \<and> wired (sys_data s) (sys_refs s) (set_mset (armed s + flying s)) (poller_ref (poller s))
   \<and> ledger s \<and> \<not> warned s"

lemma wiredI:
  assumes "\<And>q. q \<in> Q \<Longrightarrow> \<exists>h. data q = DRef h \<and> refs h \<noteq> None" and "inj_on data Q"
    and "\<And>h. p = Some h \<Longrightarrow> refs h \<noteq> None" and "\<And>h q. p = Some h \<Longrightarrow> q \<in> Q \<Longrightarrow> data q \<noteq> DRef h"
  shows "wired data refs Q p"
  using assms unfolding wired_def by force

lemma wiredD:
  assumes "wired data refs Q p"
  shows "q \<in> Q \<Longrightarrow> \<exists>h. data q = DRef h \<and> refs h \<noteq> None" and "inj_on data Q"
    and "p = Some h \<Longrightarrow> refs h \<noteq> None" and "p = Some h \<Longrightarrow> q \<in> Q \<Longrightarrow> data q \<noteq> DRef h"
  using assms unfolding wired_def by force+

lemma owner_cong:
  assumes "data' q = data q" and "\<And>h. data q = DRef h \<Longrightarrow> refs' h = refs h"
  shows "owner data' refs' q = owner data refs q"
  using assms by (simp add: owner_def split: cookie.split)

lemma wired_arm:
  assumes w: "wired data refs Q p" and q: "q \<notin> Q" and h: "refs h = None"
  shows "wired (data(q := DRef h)) (refs(h \<mapsto> obj)) (insert q Q) p"
    and "r \<in> Q \<Longrightarrow> owner (data(q := DRef h)) (refs(h \<mapsto> obj)) r = owner data refs r"
proof -
  note D = wiredD [OF w]
  have other: "data r \<noteq> DRef h" if "r \<in> Q" for r using D(1) [OF that] h by auto
  have pref: "p \<noteq> Some h" using D(3) h by auto
  show "wired (data(q := DRef h)) (refs(h \<mapsto> obj)) (insert q Q) p"
  proof (rule wiredI)
    show "\<exists>k. (data(q := DRef h)) r = DRef k \<and> (refs(h \<mapsto> obj)) k \<noteq> None" if "r \<in> insert q Q" for r
    proof (cases "r = q")
      case False
      with that have "r \<in> Q" by simp
      with D(1) [OF this] other [OF this] False show ?thesis by (metis fun_upd_apply)
    qed simp
    have "inj_on (data(q := DRef h)) Q" using D(2) q by (simp add: inj_on_fun_updI inj_on_def)
    moreover have "DRef h \<notin> data ` Q" using other by force
    ultimately show "inj_on (data(q := DRef h)) (insert q Q)" using q by (auto simp: image_iff)
  qed (use D(3,4) pref q in auto)
  show "owner (data(q := DRef h)) (refs(h \<mapsto> obj)) r = owner data refs r" if "r \<in> Q"
    using other [OF that] that q by (intro owner_cong) auto
qed

lemma wired_delete:
  assumes w: "wired data refs (insert q Q) p" and q: "q \<notin> Q" and h: "data q = DRef h"
  shows "wired data (refs(h := None)) Q p"
    and "r \<in> Q \<Longrightarrow> owner data (refs(h := None)) r = owner data refs r"
    and "p \<noteq> Some h"
proof -
  note D = wiredD [OF w]
  have other: "data r \<noteq> DRef h" if "r \<in> Q" for r using D(2) that q h by (force simp: inj_on_def)
  show pref: "p \<noteq> Some h" using D(4) h by blast
  show "wired data (refs(h := None)) Q p"
  proof (rule wiredI)
    show "\<exists>k. data r = DRef k \<and> (refs(h := None)) k \<noteq> None" if "r \<in> Q" for r
      using D(1) [of r] that other [OF that] by (metis fun_upd_apply insertCI)
    show "inj_on data Q" using D(2) by (rule inj_on_subset) blast
  qed (use D(3,4) pref in auto)
  show "owner data (refs(h := None)) r = owner data refs r" if "r \<in> Q"
    using other [OF that] by (intro owner_cong) auto
qed

lemma wired_clear:
  assumes w: "wired data refs (insert q Q) None" and q: "q \<notin> Q" and h: "data q = DRef h"
  shows "wired (data(q := DNull)) refs Q (Some h)"
    and "r \<in> Q \<Longrightarrow> owner (data(q := DNull)) refs r = owner data refs r"
proof -
  note D = wiredD [OF w]
  have other: "data r \<noteq> DRef h" if "r \<in> Q" for r using D(2) that q h by (force simp: inj_on_def)
  show "wired (data(q := DNull)) refs Q (Some h)"
  proof (rule wiredI)
    show "\<exists>k. (data(q := DNull)) r = DRef k \<and> refs k \<noteq> None" if "r \<in> Q" for r
      using D(1) [of r] that q by auto
    show "inj_on (data(q := DNull)) Q" using D(2) q by (simp add: inj_on_def)
    show "refs k \<noteq> None" if "Some h = Some k" for k using D(1) [of q] h that by auto
    show "(data(q := DNull)) r \<noteq> DRef k" if "Some h = Some k" "r \<in> Q" for k r
      using other [OF that(2)] that q by auto
  qed
  show "owner (data(q := DNull)) refs r = owner data refs r" if "r \<in> Q"
    using that q by (intro owner_cong) auto
qed

lemma wired_drop:
  assumes w: "wired data refs Q (Some h)"
  shows "wired data (refs(h := None)) Q None"
    and "r \<in> Q \<Longrightarrow> owner data (refs(h := None)) r = owner data refs r"
proof -
  note D = wiredD [OF w]
  have other: "data r \<noteq> DRef h" if "r \<in> Q" for r using D(4) that by auto
  show "wired data (refs(h := None)) Q None"
  proof (rule wiredI)
    show "\<exists>k. data r = DRef k \<and> (refs(h := None)) k \<noteq> None" if "r \<in> Q" for r
      using D(1) [OF that] other [OF that] by (metis fun_upd_apply)
  qed (use D(2) in auto)
  show "owner data (refs(h := None)) r = owner data refs r" if "r \<in> Q"
    using other [OF that] by (intro owner_cong) auto
qed

lemma wired_owner: "wired data refs Q p \<Longrightarrow> q \<in> Q \<Longrightarrow> owner data refs q \<noteq> None"
  by (auto dest!: wiredD(1) simp: owner_def)
lemma distinct_place:
  assumes "add_mset q R = mset bs" and "distinct bs"
  shows "q \<notin># R"
proof
  assume "q \<in># R"
  then have "2 \<le> count (add_mset q R) q" by simp
  also have "\<dots> = count (mset bs) q" using assms(1) by simp
  also have "\<dots> \<le> 1" using assms(2) by (simp add: distinct_count_atmost_1)
  finally show False by simp
qed

lemma away_used:
  assumes "sys_inv bs s"
  shows "int (size (away s)) = used (sys_pool s)"
proof -
  have "size (places s) = length bs" using assms by (simp add: sys_inv_def)
  then have "length (pool_free (sys_pool s)) + size (away s) = length bs"
    by (simp add: places_def)
  moreover have "int (length (pool_free (sys_pool s))) = queueSize (sys_pool s) - used (sys_pool s)"
    using assms by (intro length_pool_free) (simp add: sys_inv_def)
  ultimately show ?thesis using assms by (simp add: sys_inv_def)
qed

lemma poller_owes_upd:
  "poller_ref pc \<noteq> Some h \<Longrightarrow> poller_owes (refs(h := x)) pc = poller_owes refs pc"
  by (cases pc) auto

lemma sys_invD:
  assumes "sys_inv bs s"
  shows "pool_inv (sys_pool s)" "distinct bs" "NULL \<notin> set bs" "int (length bs) = queueSize (sys_pool s)"
    "places s = mset bs"
    "wired (sys_data s) (sys_refs s) (set_mset (armed s + flying s)) (poller_ref (poller s))"
    "ledger s" "\<not> warned s"
  using assms by (simp_all add: sys_inv_def)

lemma not_null_place:
  assumes "sys_inv bs s" and "q \<in># away s"
  shows "q \<noteq> NULL"
proof -
  from assms(2) have "q \<in># places s" by (simp add: places_def)
  with sys_invD(5) [OF assms(1)] have "q \<in> set bs" by simp
  with sys_invD(3) [OF assms(1)] show ?thesis by metis
qed

text \<open>A block that is away counts as used, so there is room to put it back.\<close>

lemma put_room:
  assumes inv: "sys_inv bs s" and q: "q \<in># away s" and put: "putIOCB (sys_pool s) q = Some c"
  shows "pool_inv c \<and> pool_free c = pool_free (sys_pool s) @ [q] \<and> queueSize c = queueSize (sys_pool s)"
proof -
  from q have "0 < size (away s)" by (auto simp: nonempty_has_size [symmetric])
  with away_used [OF inv] have busy: "0 < used (sys_pool s)" by simp
  note pinv = sys_invD(1) [OF inv]
  from putIOCB_inv [OF pinv busy not_null_place [OF inv q] put] putIOCB_keeps [OF pinv put]
  show ?thesis by simp
qed

lemma take_room:
  assumes inv: "sys_inv bs s" and get: "getIOCB (sys_pool s) = Some (q, c)" and q: "q \<noteq> NULL"
  shows "pool_inv c \<and> pool_free (sys_pool s) = q # pool_free c \<and> queueSize c = queueSize (sys_pool s)"
proof -
  note pinv = sys_invD(1) [OF inv]
  have room: "used (sys_pool s) < queueSize (sys_pool s)"
    using getIOCB_full [OF pinv] get q pinv by (fastforce simp: pool_inv_def)
  from getIOCB_inv [OF pinv room get] getIOCB_avail [OF pinv room] get show ?thesis by simp
qed

subsection \<open>Every step keeps the invariant\<close>

lemma inv_take:
  assumes inv: "sys_inv bs s" and get: "getIOCB (sys_pool s) = Some (q, c)" and q: "q \<noteq> NULL"
  shows "sys_inv bs (s\<lparr>sys_pool := c, taken := add_mset q (taken s)\<rparr>)" (is "sys_inv bs ?t")
proof -
  note room = take_room [OF assms]
  have "places ?t = places s" using room by (simp add: places_def away_def)
  moreover have "flying ?t = flying s" by (simp add: flying_def)
  ultimately show ?thesis using inv room by (simp add: sys_inv_def ledger_def)
qed

lemma inv_full:
  assumes inv: "sys_inv bs s" and get: "getIOCB (sys_pool s) = Some (NULL, c)"
  shows "sys_inv bs (s\<lparr>sys_pool := c\<rparr>)"
proof -
  note pinv = sys_invD(1) [OF inv]
  have "c = sys_pool s"
  proof (cases "used (sys_pool s) < queueSize (sys_pool s)")
    case True
    with getIOCB_inv [OF pinv True get] show ?thesis by simp
  next
    case False
    with pinv have "used (sys_pool s) = queueSize (sys_pool s)" by (simp add: pool_inv_def)
    with getIOCB_full [OF pinv] get show ?thesis by simp
  qed
  with inv show ?thesis by simp
qed

lemma inv_arm:
  assumes inv: "sys_inv bs s" and q: "q \<in># taken s" and h: "sys_refs s h = None"
  shows "sys_inv bs (s\<lparr>taken := taken s - {#q#}, armed := add_mset q (armed s),
      sys_data := (sys_data s)(q := DRef h), sys_refs := (sys_refs s)(h \<mapsto> obj)\<rparr>)" (is "sys_inv bs ?t")
proof -
  note D = sys_invD [OF inv]
  obtain A where A: "taken s = add_mset q A" using q by (auto dest: multi_member_split)
  have fl: "flying ?t = flying s" by (simp add: flying_def)
  have pl: "places ?t = places s" by (simp add: places_def away_def A)
  have "add_mset q (mset (pool_free (sys_pool s)) + A + armed s + refused s + flying s
      + poller_block (poller s)) = mset bs"
    using D(5) by (simp add: places_def away_def flying_def A ac_simps)
  from distinct_place [OF this D(2)] have new: "q \<notin> set_mset (armed s + flying s)" by auto
  note w = wired_arm [OF D(6) new h, where obj = obj]
  have "poller_ref (poller s) \<noteq> Some h" using D(6) h by (auto simp: wired_def)
  moreover have "image_mset (owner (sys_data ?t) (sys_refs ?t)) (flying s)
      = image_mset (owner (sys_data s) (sys_refs s)) (flying s)"
    using w(2) by (intro image_mset_cong) simp
  ultimately have "ledger ?t" using D(7) by (simp add: ledger_def fl poller_owes_upd)
  with w(1) D pl fl show ?thesis by (simp add: sys_inv_def)
qed

lemma inv_accept:
  assumes inv: "sys_inv bs s" and q: "q \<in># armed s" and data: "sys_data s q = DRef h"
    and obj: "sys_refs s h = Some obj"
  shows "sys_inv bs (s\<lparr>armed := armed s - {#q#}, in_kernel := add_mset q (in_kernel s),
      accepted := add_mset obj (accepted s)\<rparr>)" (is "sys_inv bs ?t")
proof -
  obtain A where A: "armed s = add_mset q A" using q by (auto dest: multi_member_split)
  have "flying ?t = add_mset q (flying s)" "places ?t = places s"
    by (simp_all add: flying_def places_def away_def A)
  moreover have "owner (sys_data s) (sys_refs s) q = Some obj" using data obj by (simp add: owner_def)
  ultimately show ?thesis using inv A by (simp add: sys_inv_def ledger_def)
qed

lemma inv_refuse:
  assumes inv: "sys_inv bs s" and q: "q \<in># armed s" and data: "sys_data s q = DRef h"
  shows "sys_inv bs (s\<lparr>armed := armed s - {#q#}, refused := add_mset q (refused s),
      sys_refs := (sys_refs s)(h := None)\<rparr>)" (is "sys_inv bs ?t")
proof -
  note D = sys_invD [OF inv]
  obtain A where A: "armed s = add_mset q A" using q by (auto dest: multi_member_split)
  have fl: "flying ?t = flying s" by (simp add: flying_def)
  have pl: "places ?t = places s" by (simp add: places_def away_def A)
  have "add_mset q (mset (pool_free (sys_pool s)) + taken s + A + refused s + flying s
      + poller_block (poller s)) = mset bs"
    using D(5) by (simp add: places_def away_def flying_def A ac_simps)
  from distinct_place [OF this D(2)] have new: "q \<notin> set_mset (A + flying s)" by auto
  have "wired (sys_data s) (sys_refs s) (insert q (set_mset (A + flying s))) (poller_ref (poller s))"
    using D(6) by (simp add: A)
  note w = wired_delete [OF this new data]
  have "image_mset (owner (sys_data ?t) (sys_refs ?t)) (flying s)
      = image_mset (owner (sys_data s) (sys_refs s)) (flying s)"
    using w(2) by (intro image_mset_cong) simp
  then have "ledger ?t" using D(7) by (simp add: ledger_def fl poller_owes_upd [OF w(3)])
  with w(1) D pl fl show ?thesis by (simp add: sys_inv_def A)
qed

lemma inv_give_back:
  assumes inv: "sys_inv bs s" and q: "q \<in># refused s" and put: "putIOCB (sys_pool s) q = Some c"
  shows "sys_inv bs (s\<lparr>refused := refused s - {#q#}, sys_pool := c\<rparr>)" (is "sys_inv bs ?t")
proof -
  obtain A where A: "refused s = add_mset q A" using q by (auto dest: multi_member_split)
  have "q \<in># away s" by (simp add: away_def A)
  note room = put_room [OF inv this put]
  have "flying ?t = flying s" "places ?t = places s"
    using room by (simp_all add: flying_def places_def away_def A)
  then show ?thesis using inv room by (simp add: sys_inv_def ledger_def)
qed

lemma inv_complete:
  assumes inv: "sys_inv bs s" and q: "q \<in># in_kernel s"
  shows "sys_inv bs (s\<lparr>in_kernel := in_kernel s - {#q#}, in_ring := in_ring s @ [q]\<rparr>)" (is "sys_inv bs ?t")
proof -
  obtain A where A: "in_kernel s = add_mset q A" using q by (auto dest: multi_member_split)
  have "flying ?t = flying s" "places ?t = places s"
    by (simp_all add: flying_def places_def away_def A)
  with inv show ?thesis by (simp add: sys_inv_def ledger_def)
qed

lemma inv_reap:
  assumes inv: "sys_inv bs s" and "in_batch s = []" and "in_ring s = xs @ ys"
  shows "sys_inv bs (s\<lparr>in_batch := xs, in_ring := ys\<rparr>)" (is "sys_inv bs ?t")
proof -
  have "flying ?t = flying s" "places ?t = places s"
    using assms(2,3) by (simp_all add: flying_def places_def away_def)
  with inv show ?thesis by (simp add: sys_inv_def ledger_def)
qed

lemma inv_clear:
  assumes inv: "sys_inv bs s" and idle: "poller s = PIdle" and q: "in_batch s = q # qs"
    and data: "sys_data s q = DRef h"
  shows "sys_inv bs (s\<lparr>in_batch := qs, sys_data := (sys_data s)(q := DNull), poller := PCleared q h\<rparr>)"
    (is "sys_inv bs ?t")
proof -
  note D = sys_invD [OF inv]
  have fl: "flying s = add_mset q (flying ?t)" by (simp add: flying_def q)
  have pl: "places ?t = places s" by (simp add: places_def away_def q idle)
  have "add_mset q (mset (pool_free (sys_pool s)) + taken s + armed s + refused s + flying ?t) = mset bs"
    using D(5) by (simp add: places_def away_def flying_def q idle ac_simps)
  from distinct_place [OF this D(2)] have new: "q \<notin> set_mset (armed s + flying ?t)" by auto
  have "wired (sys_data s) (sys_refs s) (insert q (set_mset (armed s + flying ?t))) None"
    using D(6) idle by (simp add: fl)
  note w = wired_clear [OF this new data]
  have "image_mset (owner (sys_data ?t) (sys_refs ?t)) (flying ?t)
      = image_mset (owner (sys_data s) (sys_refs s)) (flying ?t)"
    using w(2) by (intro image_mset_cong) simp
  moreover have "owner (sys_data s) (sys_refs s) q = sys_refs s h" using data by (simp add: owner_def)
  ultimately have "ledger ?t" using D(7) idle by (simp add: ledger_def fl)
  with w(1) D pl show ?thesis by (simp add: sys_inv_def)
qed

text \<open>The step that reports a duplicate completion never happens.\<close>

lemma inv_duplicate:
  assumes inv: "sys_inv bs s" and q: "in_batch s = q # qs" and data: "sys_data s q = DNull"
  shows False
  using sys_invD(6) [OF inv] q data by (auto simp: wired_def flying_def)

lemma inv_put_back:
  assumes inv: "sys_inv bs s" and pc: "poller s = PCleared q h" and put: "putIOCB (sys_pool s) q = Some c"
  shows "sys_inv bs (s\<lparr>sys_pool := c, poller := PReturned h\<rparr>)" (is "sys_inv bs ?t")
proof -
  have "q \<in># away s" by (simp add: away_def pc)
  note room = put_room [OF inv this put]
  have "flying ?t = flying s" "places ?t = places s"
    using room by (simp_all add: flying_def places_def away_def pc)
  then show ?thesis using inv room pc by (simp add: sys_inv_def ledger_def)
qed

lemma inv_call_done:
  assumes inv: "sys_inv bs s" and pc: "poller s = PReturned h" and obj: "sys_refs s h = Some obj"
  shows "sys_inv bs (s\<lparr>delivered := delivered s @ [obj], poller := PCalled h\<rparr>)" (is "sys_inv bs ?t")
proof -
  have "flying ?t = flying s" "places ?t = places s"
    by (simp_all add: flying_def places_def away_def pc)
  then show ?thesis using inv pc obj by (simp add: sys_inv_def ledger_def)
qed

lemma inv_drop:
  assumes inv: "sys_inv bs s" and pc: "poller s = PCalled h"
  shows "sys_inv bs (s\<lparr>sys_refs := (sys_refs s)(h := None), poller := PIdle\<rparr>)" (is "sys_inv bs ?t")
proof -
  note D = sys_invD [OF inv]
  have fl: "flying ?t = flying s" and pl: "places ?t = places s"
    by (simp_all add: flying_def places_def away_def pc)
  have "wired (sys_data s) (sys_refs s) (set_mset (armed s + flying s)) (Some h)"
    using D(6) pc by simp
  note w = wired_drop [OF this]
  have "image_mset (owner (sys_data ?t) (sys_refs ?t)) (flying s)
      = image_mset (owner (sys_data s) (sys_refs s)) (flying s)"
    using w(2) by (intro image_mset_cong) simp
  then have "ledger ?t" using D(7) pc by (simp add: ledger_def fl)
  with w(1) D pl fl show ?thesis by (simp add: sys_inv_def)
qed

lemma submitter_step_inv:
  assumes step: "submitter_step s t" and inv: "sys_inv bs s"
  shows "sys_inv bs t"
  using step
proof (cases rule: submitter_step.cases)
  case (take q c)
  with inv_take [OF inv] show ?thesis by blast
next
  case (full c)
  with inv_full [OF inv] show ?thesis by blast
next
  case (arm q h obj)
  with inv_arm [OF inv] show ?thesis by blast
next
  case (accept q h obj)
  with inv_accept [OF inv] show ?thesis by blast
next
  case (refuse q h)
  with inv_refuse [OF inv] show ?thesis by blast
next
  case (give_back q c)
  with inv_give_back [OF inv] show ?thesis by blast
qed

lemma poller_step_inv:
  assumes step: "poller_step s t" and inv: "sys_inv bs s"
  shows "sys_inv bs t"
  using step
proof (cases rule: poller_step.cases)
  case (reap xs ys)
  with inv_reap [OF inv] show ?thesis by blast
next
  case (clear q qs h)
  with inv_clear [OF inv] show ?thesis by blast
next
  case (duplicate q qs)
  with inv_duplicate [OF inv] show ?thesis by blast
next
  case (put_back q h c)
  with inv_put_back [OF inv] show ?thesis by blast
next
  case (call_done h obj)
  with inv_call_done [OF inv] show ?thesis by blast
next
  case (drop h)
  with inv_drop [OF inv] show ?thesis by blast
qed

lemma sys_step_inv:
  assumes step: "sys_step a s t" and inv: "sys_inv bs s"
  shows "sys_inv bs t"
proof (cases a)
  case Submitter
  with step submitter_step_inv [OF _ inv] show ?thesis by (simp add: sys_step.simps)
next
  case Kernel
  with step have "kernel_step s t" by (simp add: sys_step.simps)
  then show ?thesis by (rule kernel_stepE) (use inv_complete [OF inv] in blast)
next
  case Poller
  with step poller_step_inv [OF _ inv] show ?thesis by (simp add: sys_step.simps)
qed

subsection \<open>Runs\<close>

abbreviation any_step :: "system \<Rightarrow> system \<Rightarrow> bool" where
  "any_step s t \<equiv> \<exists>a. sys_step a s t"

text \<open>A context as \<open>newContext\<close> leaves it, every control block in the pool; \<open>refs\<close> are the
  references that exist for other reasons.\<close>

definition sys_start :: "io_control \<Rightarrow> (nat \<rightharpoonup> jobject) \<Rightarrow> system" where
  "sys_start c refs = \<lparr>sys_pool = c, sys_data = (\<lambda>_. DNull), sys_refs = refs, taken = {#}, armed = {#},
     refused = {#}, in_kernel = {#}, in_ring = [], in_batch = [], poller = PIdle, accepted = {#},
     delivered = [], warned = False\<rparr>"

definition fresh_pool :: "io_control \<Rightarrow> bool" where
  "fresh_pool c \<longleftrightarrow> pool_inv c \<and> used c = 0 \<and> distinct (pool_free c)"

lemma sys_start_inv:
  assumes "fresh_pool c"
  shows "sys_inv (pool_free c) (sys_start c refs)"
  using assms length_pool_free [of c]
  by (simp add: sys_inv_def sys_start_def fresh_pool_def pool_inv_def places_def away_def wired_def
      ledger_def flying_def)

interpretation sysrun: invariant_system any_step "sys_inv bs" for bs
  by unfold_locales (auto intro: sys_step_inv)

lemma reachable_inv:
  assumes "any_step\<^sup>*\<^sup>* (sys_start c refs) s" and "fresh_pool c"
  shows "sys_inv (pool_free c) s"
  by (rule sysrun.run_inv [OF assms(1) sys_start_inv [OF assms(2)]])

lemma image_Some_subset: "image_mset Some M = image_mset Some N + R \<Longrightarrow> N \<subseteq># (M :: 'a multiset)"
proof -
  assume eq: "image_mset Some M = image_mset Some N + R"
  have "image_mset the (image_mset Some N) \<subseteq># image_mset the (image_mset Some M)"
    unfolding eq by simp
  then show ?thesis by (simp add: multiset.map_comp comp_def)
qed

lemma image_Some_eq: "image_mset Some M = image_mset Some N \<Longrightarrow> M = (N :: 'a multiset)"
  using image_Some_subset [of M N "{#}"] image_Some_subset [of N M "{#}"]
  by (simp add: subset_mset.antisym)

lemma step_run: "sys_step a s t \<Longrightarrow> any_step\<^sup>*\<^sup>* t u \<Longrightarrow> any_step\<^sup>*\<^sup>* s u"
  by (rule converse_rtranclp_into_rtranclp) blast+

text \<open>A sample run: one request, from \<open>getIOCB\<close> to the deletion of the reference.\<close>

definition one_request :: "addr \<Rightarrow> nat \<Rightarrow> jobject \<Rightarrow> io_control \<Rightarrow> io_control \<Rightarrow> system \<Rightarrow> system" where
  "one_request q h obj c d s = s\<lparr>sys_pool := d, sys_data := (sys_data s)(q := DNull),
     sys_refs := (sys_refs s)(h := None), accepted := add_mset obj (accepted s),
     delivered := delivered s @ [obj]\<rparr>"

lemma one_request_run:
  assumes get: "getIOCB (sys_pool s) = Some (q, c)" and q: "q \<noteq> NULL" and h: "h \<noteq> 0" "sys_refs s h = None"
    and quiet: "taken s = {#}" "armed s = {#}" "in_kernel s = {#}" "in_ring s = []" "in_batch s = []"
      "poller s = PIdle"
    and put: "putIOCB c q = Some d"
  shows "any_step\<^sup>*\<^sup>* s (one_request q h obj c d s)"
proof -
  let ?s1 = "s\<lparr>sys_pool := c, taken := {#q#}\<rparr>"
  let ?data = "(sys_data s)(q := DRef h)" and ?refs = "(sys_refs s)(h \<mapsto> obj)"
  let ?s2 = "s\<lparr>sys_pool := c, sys_data := ?data, sys_refs := ?refs, armed := {#q#}\<rparr>"
  let ?acc = "add_mset obj (accepted s)"
  let ?s3 = "s\<lparr>sys_pool := c, sys_data := ?data, sys_refs := ?refs, in_kernel := {#q#}, accepted := ?acc\<rparr>"
  let ?s4 = "s\<lparr>sys_pool := c, sys_data := ?data, sys_refs := ?refs, in_ring := [q], accepted := ?acc\<rparr>"
  let ?s5 = "s\<lparr>sys_pool := c, sys_data := ?data, sys_refs := ?refs, in_batch := [q], accepted := ?acc\<rparr>"
  let ?null = "(sys_data s)(q := DNull)"
  let ?s6 = "s\<lparr>sys_pool := c, sys_data := ?null, sys_refs := ?refs, poller := PCleared q h, accepted := ?acc\<rparr>"
  let ?s7 = "s\<lparr>sys_pool := d, sys_data := ?null, sys_refs := ?refs, poller := PReturned h, accepted := ?acc\<rparr>"
  let ?s8 = "s\<lparr>sys_pool := d, sys_data := ?null, sys_refs := ?refs, poller := PCalled h, accepted := ?acc,
    delivered := delivered s @ [obj]\<rparr>"
  let ?s9 = "one_request q h obj c d s"
  have s1: "sys_step Submitter s ?s1" using take [OF get q] quiet by simp
  have s2: "sys_step Submitter ?s1 ?s2"
    using arm [of q ?s1 h obj] h quiet by (cases s) simp
  have s3: "sys_step Submitter ?s2 ?s3"
    using accept [of q ?s2 h obj] quiet by (cases s) simp
  have s4: "sys_step Kernel ?s3 ?s4"
    using complete [of q ?s3] quiet by (cases s) simp
  have s5: "sys_step Poller ?s4 ?s5"
    using reap [of ?s4 "[q]" "[]"] quiet by (cases s) simp
  have s6: "sys_step Poller ?s5 ?s6"
    using clear [of ?s5 q "[]" h] quiet by (cases s) simp
  have s7: "sys_step Poller ?s6 ?s7"
    using hand_back [of ?s6 q h d] put quiet by (cases s) simp
  have s8: "sys_step Poller ?s7 ?s8"
    using call_done [of ?s7 h obj] quiet by (cases s) simp
  have s9: "sys_step Poller ?s8 ?s9"
    using drop [of ?s8 h] quiet by (cases s) (simp add: one_request_def)
  show ?thesis
    by (rule step_run [OF s1 step_run [OF s2 step_run [OF s3 step_run [OF s4 step_run [OF s5
          step_run [OF s6 step_run [OF s7 step_run [OF s8 step_run [OF s9 rtranclp.rtrancl_refl]]]]]]]]])
qed
text \<open>C14: at every moment of every run each control block of the context is in exactly one place: free in
  the pool, with a submitter, with the kernel, in the ring, in the poller's batch or in its hands;
  none is lost and none is in two places, \<open>used\<close> counts exactly the blocks that are away from the
  pool, and the pool is well-formed.\<close>

theorem blocks_conserved:
  assumes "any_step\<^sup>*\<^sup>* (sys_start c refs) s" and "fresh_pool c"
  shows "mset (pool_free (sys_pool s)) + away s = mset (pool_free c)
    \<and> (\<forall>q. count (mset (pool_free (sys_pool s)) + away s) q \<le> 1)
    \<and> used (sys_pool s) = int (size (away s)) \<and> pool_inv (sys_pool s)"
proof -
  note inv = reachable_inv [OF assms]
  have "mset (pool_free (sys_pool s)) + away s = mset (pool_free c)"
    using sys_invD(5) [OF inv] by (simp add: places_def)
  with away_used [OF inv] sys_invD(1,2) [OF inv] show ?thesis
    by (simp add: distinct_count_atmost_1)
qed

lemma small_pool_fresh: "fresh_pool (small_pool 0)"
  by (simp add: fresh_pool_def small_pool_inv)

lemma small_pool_steps:
  "getIOCB (small_pool 0) = Some (20, small_pool 1)"
  "\<exists>d. putIOCB (small_pool 1) 20 = Some d"
  by (simp_all add: pool_defs small_pool_def)

lemma sample_taken:
  "any_step\<^sup>*\<^sup>* (sys_start (small_pool 0) Map.empty)
    ((sys_start (small_pool 0) Map.empty)\<lparr>sys_pool := small_pool 1, taken := {#20#}\<rparr>)"
proof -
  let ?s = "sys_start (small_pool 0) Map.empty"
  have "sys_step Submitter ?s (?s\<lparr>sys_pool := small_pool 1, taken := add_mset 20 (taken ?s)\<rparr>)"
    by (rule take) (simp_all add: sys_start_def small_pool_steps)
  from step_run [OF this rtranclp.rtrancl_refl] show ?thesis by (simp add: sys_start_def)
qed

lemma sample_request:
  "\<exists>s. any_step\<^sup>*\<^sup>* (sys_start (small_pool 0) Map.empty) s \<and> delivered s = [7] \<and> accepted s = {#7#}
    \<and> flying s = {#} \<and> poller s = PIdle"
proof -
  let ?s = "sys_start (small_pool 0) Map.empty"
  obtain d where d: "putIOCB (small_pool 1) 20 = Some d" using small_pool_steps(2) by blast
  have "any_step\<^sup>*\<^sup>* ?s (one_request 20 5 7 (small_pool 1) d ?s)"
    by (rule one_request_run [OF _ _ _ _ _ _ _ _ _ _ d]) (simp_all add: sys_start_def small_pool_steps)
  moreover have "delivered (one_request 20 5 7 (small_pool 1) d ?s) = [7]
    \<and> accepted (one_request 20 5 7 (small_pool 1) d ?s) = {#7#}
    \<and> flying (one_request 20 5 7 (small_pool 1) d ?s) = {#}
    \<and> poller (one_request 20 5 7 (small_pool 1) d ?s) = PIdle"
    by (simp add: one_request_def sys_start_def flying_def)
  ultimately show ?thesis by blast
qed

theorem blocks_conserved_witness:
  "\<exists>s. any_step\<^sup>*\<^sup>* (sys_start (small_pool 0) Map.empty) s \<and> taken s = {#20#}
    \<and> mset (pool_free (sys_pool s)) + away s = {#20, 21, 22#}"
proof -
  let ?s = "(sys_start (small_pool 0) Map.empty)\<lparr>sys_pool := small_pool 1, taken := {#20#}\<rparr>"
  have "mset (pool_free (sys_pool ?s)) + away ?s = {#20, 21, 22#}"
    using blocks_conserved [OF sample_taken small_pool_fresh] by simp
  moreover have "taken ?s = {#20#}" by simp
  ultimately show ?thesis using sample_taken by blast
qed

text \<open>C5: however submitters, kernel and poller interleave, no callback is called that was not accepted
  and none is called twice for one request; when nothing is outstanding the calls of \<open>done\<close> are
  exactly the accepted requests; and the poller never meets a control block without user data, so
  it never reports a duplicate.\<close>

theorem callbacks_exactly_once:
  assumes "any_step\<^sup>*\<^sup>* (sys_start c refs) s" and "fresh_pool c"
  shows "mset (delivered s) \<subseteq># accepted s
    \<and> (flying s = {#} \<and> poller s = PIdle \<longrightarrow> mset (delivered s) = accepted s) \<and> \<not> warned s"
proof -
  note inv = reachable_inv [OF assms]
  note eq = sys_invD(7) [OF inv, unfolded ledger_def]
  from eq have "mset (delivered s) \<subseteq># accepted s"
    by - (rule image_Some_subset, simp add: add.assoc)
  moreover have "mset (delivered s) = accepted s" if "flying s = {#}" "poller s = PIdle"
    by (rule image_Some_eq [symmetric]) (use eq that in simp)
  ultimately show ?thesis using sys_invD(8) [OF inv] by blast
qed

theorem callbacks_exactly_once_witness:
  "\<exists>s. any_step\<^sup>*\<^sup>* (sys_start (small_pool 0) Map.empty) s \<and> delivered s = [7]
    \<and> accepted s = {#7#} \<and> mset (delivered s) \<subseteq># accepted s"
proof -
  obtain s where s: "any_step\<^sup>*\<^sup>* (sys_start (small_pool 0) Map.empty) s" "delivered s = [7]"
    "flying s = {#}" "poller s = PIdle"
    using sample_request by blast
  from callbacks_exactly_once [OF s(1) small_pool_fresh] s have "accepted s = {#7#}" by simp
  with s callbacks_exactly_once [OF s(1) small_pool_fresh] show ?thesis by blast
qed
subsection \<open>Progress of the poller\<close>

lemma putIOCB_some: "pool_inv c \<Longrightarrow> \<exists>d. putIOCB c q = Some d"
  using putIOCB_used [of c q] by auto

lemma poller_progress:
  assumes inv: "sys_inv bs s"
    and work: "poller s \<noteq> PIdle \<or> in_batch s \<noteq> [] \<or> in_ring s \<noteq> []"
  shows "\<exists>t. sys_step Poller s t"
proof (cases "poller s")
  case PIdle
  show ?thesis
  proof (cases "in_batch s")
    case Nil
    with work PIdle have "in_ring s \<noteq> []" by simp
    then show ?thesis using reap [OF PIdle Nil, of "in_ring s" "[]"] by auto
  next
    case (Cons q qs)
    then have "q \<in># armed s + flying s" by (simp add: flying_def)
    then obtain h where "sys_data s q = DRef h" using wiredD(1) [OF sys_invD(6) [OF inv]] by blast
    from clear [OF PIdle Cons this] show ?thesis by blast
  qed
next
  case (PCleared q h)
  then show ?thesis using putIOCB_some [OF sys_invD(1) [OF inv]] hand_back by blast
next
  case (PReturned h)
  then have "sys_refs s h \<noteq> None" using wiredD(3) [OF sys_invD(6) [OF inv]] by simp
  then show ?thesis using call_done [OF PReturned] by blast
next
  case (PCalled h)
  then have "sys_refs s h \<noteq> None" using wiredD(3) [OF sys_invD(6) [OF inv]] by simp
  then show ?thesis using drop [OF PCalled] by blast
qed

text \<open>What the kernel and the poller still have to do for the requests that are outstanding.\<close>

definition drain :: "system \<Rightarrow> system \<Rightarrow> bool" where
  "drain s t \<longleftrightarrow> sys_step Kernel s t \<or> sys_step Poller s t"

fun poller_measure :: "poller_pc \<Rightarrow> nat" where
  "poller_measure PIdle = 0"
| "poller_measure (PCleared q h) = 3"
| "poller_measure (PReturned h) = 2"
| "poller_measure (PCalled h) = 1"

definition drain_measure :: "system \<Rightarrow> nat" where
  "drain_measure s = 6 * size (in_kernel s) + 5 * length (in_ring s) + 4 * length (in_batch s)
     + poller_measure (poller s)"

lemma drain_decreases: "drain s t \<Longrightarrow> drain_measure t < drain_measure s \<and> accepted t = accepted s"
  unfolding drain_def sys_step.simps
proof (elim disjE)
  assume "kernel_step s t"
  then show ?thesis
  proof (cases rule: kernel_step.cases)
    case (complete q)
    then obtain K where "in_kernel s = add_mset q K" by (auto dest: multi_member_split)
    with complete show ?thesis by (simp add: drain_measure_def)
  qed
next
  assume "poller_step s t"
  then show ?thesis
  proof (cases rule: poller_step.cases)
    case (reap xs ys)
    then have "1 \<le> length xs" by (cases xs) simp_all
    with reap show ?thesis by (simp add: drain_measure_def)
  qed (simp_all add: drain_measure_def)
qed

lemma drain_run: "drain\<^sup>*\<^sup>* s t \<Longrightarrow> any_step\<^sup>*\<^sup>* s t \<and> accepted t = accepted s"
proof (induction rule: rtranclp_induct)
  case (step t u)
  then have "any_step t u" "accepted u = accepted s"
    using drain_decreases by (auto simp: drain_def)
  with step.IH show ?case by (blast intro: rtranclp.rtrancl_into_rtrancl)
qed simp

interpretation draining: ranked_system drain drain_measure
  by unfold_locales (simp add: drain_decreases)

lemma drain_stuck:
  assumes "sys_inv bs s" and "\<nexists>t. drain s t"
  shows "flying s = {#} \<and> poller s = PIdle"
proof -
  have "in_kernel s = {#}"
    using complete assms(2) unfolding drain_def by (metis multiset_nonemptyE)
  with poller_progress [OF assms(1)] assms(2) show ?thesis
    unfolding drain_def by (auto simp: flying_def)
qed

text \<open>C11: whatever the moment, if the submitters pause, the kernel and the poller finish: a run of theirs
  has at most \<open>drain_measure\<close> steps, and when it cannot go on every accepted request has had its
  call of \<open>done\<close> and only the blocks that the submitters hold are away from the pool. In particular
  the poller never blocks on a full pool, a dead reference or a cleared control block.\<close>

theorem draining_delivers:
  assumes run: "any_step\<^sup>*\<^sup>* (sys_start c refs) s" and "fresh_pool c"
  shows "((drain ^^ n) s t \<longrightarrow> n \<le> drain_measure s)
    \<and> (\<exists>t. drain\<^sup>*\<^sup>* s t \<and> (\<nexists>u. drain t u))
    \<and> (drain\<^sup>*\<^sup>* s t \<and> (\<nexists>u. drain t u) \<longrightarrow> mset (delivered t) = accepted s
        \<and> used (sys_pool t) = int (size (taken t + armed t + refused t)))"
proof (intro conjI impI)
  assume "(drain ^^ n) s t"
  from draining.run_bound [OF this] show "n \<le> drain_measure s" by simp
next
  show "\<exists>t. drain\<^sup>*\<^sup>* s t \<and> (\<nexists>u. drain t u)" by (rule draining.run_ends)
next
  assume t: "drain\<^sup>*\<^sup>* s t \<and> (\<nexists>u. drain t u)"
  have reach: "any_step\<^sup>*\<^sup>* (sys_start c refs) t" and acc: "accepted t = accepted s"
    using drain_run [of s t] t run by (auto intro: rtranclp_trans)
  note inv = reachable_inv [OF reach assms(2)]
  have quiet: "flying t = {#}" "poller t = PIdle" using drain_stuck [OF inv] t by blast+
  have "image_mset Some (accepted t) = image_mset Some (mset (delivered t))"
    using sys_invD(7) [OF inv] quiet by (simp add: ledger_def)
  with acc show "mset (delivered t) = accepted s" by (metis image_Some_eq)
  have "away t = taken t + armed t + refused t"
    using quiet by (simp add: away_def flying_def)
  then show "used (sys_pool t) = int (size (taken t + armed t + refused t))"
    using away_used [OF inv] by simp
qed

lemma arm_accept:
  assumes "q \<in># taken s" and "h \<noteq> 0" and "sys_refs s h = None"
  shows "\<exists>t u. sys_step Submitter s t \<and> sys_step Submitter t u \<and> accepted u = add_mset obj (accepted s)
    \<and> delivered u = delivered s"
proof -
  let ?t = "s\<lparr>taken := taken s - {#q#}, armed := add_mset q (armed s),
    sys_data := (sys_data s)(q := DRef h), sys_refs := (sys_refs s)(h \<mapsto> obj)\<rparr>"
  let ?u = "?t\<lparr>armed := armed ?t - {#q#}, in_kernel := add_mset q (in_kernel ?t),
    accepted := add_mset obj (accepted ?t)\<rparr>"
  have "sys_step Submitter s ?t" using assms by (rule arm)
  moreover have "sys_step Submitter ?t ?u" by (rule accept [where h = h]) simp_all
  moreover have "accepted ?u = add_mset obj (accepted s)" "delivered ?u = delivered s" by simp_all
  ultimately show ?thesis by blast
qed

lemma run_step: "any_step\<^sup>*\<^sup>* s t \<Longrightarrow> sys_step a t u \<Longrightarrow> any_step\<^sup>*\<^sup>* s u"
  by (rule rtranclp.rtrancl_into_rtrancl) blast+

lemma sample_accepted:
  "\<exists>s. any_step\<^sup>*\<^sup>* (sys_start (small_pool 0) Map.empty) s \<and> accepted s = {#7#} \<and> delivered s = []"
proof -
  obtain s where s: "any_step\<^sup>*\<^sup>* (sys_start (small_pool 0) Map.empty) s"
    and q: "20 \<in># taken s" "(5::nat) \<noteq> 0" "sys_refs s 5 = None"
    and none: "accepted s = {#}" "delivered s = []"
    using sample_taken by (force simp: sys_start_def)
  from arm_accept [OF q, of 7] none obtain t u where
    "sys_step Submitter s t" "sys_step Submitter t u" "accepted u = {#7#}" "delivered u = []" by force
  with run_step [OF run_step [OF s]] show ?thesis by blast
qed

theorem draining_delivers_witness:
  "\<exists>s t. any_step\<^sup>*\<^sup>* (sys_start (small_pool 0) Map.empty) s \<and> delivered s = [] \<and> drain\<^sup>*\<^sup>* s t
    \<and> delivered t = [7]"
proof -
  obtain s where s: "any_step\<^sup>*\<^sup>* (sys_start (small_pool 0) Map.empty) s" "accepted s = {#7#}" "delivered s = []"
    using sample_accepted by blast
  obtain t where t: "drain\<^sup>*\<^sup>* s t" "\<nexists>u. drain t u"
    using draining_delivers [OF s(1) small_pool_fresh, of 0 s] by blast
  with draining_delivers [OF s(1) small_pool_fresh, of 0 t] s(2) have "delivered t = [7]"
    by simp
  with s t show ?thesis by blast
qed

end
