(* ===== verification/Refinement.thy ===== *)
theory Refinement
  imports Poll Interleaving
begin

section \<open>The code takes the steps of the concurrent system\<close>

text \<open>
  The operations of \<open>Submit\<close> and \<open>Poll\<close> are runs of \<open>sys_step\<close>, action by action: \<open>submitWrite\<close> and
  \<open>submitRead\<close> of the submitter's steps, the body of the loop of \<open>blockedPoll\<close> of the poller's. \<open>sim\<close>
  relates a machine and a state of the system: same pool, same user data in every control block,
  same global references, and the two histories of the system told by the log of the machine: the
  callbacks delivered are the calls of \<open>done\<close>, in this order, and as many requests were accepted as
  the kernel took on this context.
\<close>

definition accepted_blocks :: "addr \<Rightarrow> effect list \<Rightarrow> addr list" where
  "accepted_blocks ctx l =
     concat (map (\<lambda>e. case e of ESubmit c q r \<Rightarrow> if c = ctx \<and> 0 \<le> r then [q] else [] | _ \<Rightarrow> []) l)"

lemma accepted_blocks_append [simp]:
  "accepted_blocks ctx (a @ b) = accepted_blocks ctx a @ accepted_blocks ctx b"
  by (simp add: accepted_blocks_def)

lemma accepted_blocks_simps [simp]:
  "accepted_blocks ctx [] = []"
  "accepted_blocks ctx (ESubmit c q r # l) = (if c = ctx \<and> 0 \<le> r then [q] else []) @ accepted_blocks ctx l"
  "accepted_blocks ctx (EFdatasync fd # l) = accepted_blocks ctx l"
  "accepted_blocks ctx (EUpcall u # l) = accepted_blocks ctx l"
  "accepted_blocks ctx (EDeleteGlobalRef h # l) = accepted_blocks ctx l"
  "accepted_blocks ctx (EStderr x # l) = accepted_blocks ctx l"
  by (simp_all add: accepted_blocks_def)

definition sim :: "addr \<Rightarrow> 'w machine \<Rightarrow> system \<Rightarrow> bool" where
  "sim p m s \<longleftrightarrow> ctls m p = Some (sys_pool s) \<and> grefs m = sys_refs s
     \<and> (\<forall>q cb. iocbs m q = Some cb \<longrightarrow> iocb_data cb = sys_data s q)
     \<and> done_calls (log m) = delivered s
     \<and> length (accepted_blocks (ioContext (sys_pool s)) (log m)) = size (accepted s)"

text \<open>
  A list of actions of the code, each of which is one step of an actor of the system, or none, and
  leaves the machine and the system related.
\<close>

fun lockstep ::
  "addr \<Rightarrow> actor \<Rightarrow> 'w action list \<Rightarrow> 'w machine \<Rightarrow> system \<Rightarrow> 'w machine \<Rightarrow> system \<Rightarrow> bool" where
  "lockstep p a [] m s m' t = (m' = m \<and> t = s)"
| "lockstep p a (f # fs) m s m' t = (\<exists>m1 s1. f m = Some m1 \<and> (s1 = s \<or> sys_step a s s1) \<and> sim p m1 s1
     \<and> lockstep p a fs m1 s1 m' t)"

lemma lockstep_step:
  "f m = Some m1 \<Longrightarrow> sys_step a s s1 \<Longrightarrow> sim p m1 s1 \<Longrightarrow> lockstep p a fs m1 s1 m' t
    \<Longrightarrow> lockstep p a (f # fs) m s m' t"
  by (auto simp: lockstep.simps(2))

lemma lockstep_still:
  "f m = Some m1 \<Longrightarrow> sim p m1 s \<Longrightarrow> lockstep p a fs m1 s m' t \<Longrightarrow> lockstep p a (f # fs) m s m' t"
  by (auto simp: lockstep.simps(2))

declare lockstep.simps(2) [simp del]

text \<open>The actions run, and the actor gets from the first state of the system to the last.\<close>

lemma lockstep_run:
  assumes "lockstep p a fs m s m' t"
  shows "run_actions fs m = Some m' \<and> (sys_step a)\<^sup>*\<^sup>* s t"
  using assms
proof (induction fs arbitrary: m s)
  case (Cons f fs)
  then obtain m1 s1 where "f m = Some m1" and step: "s1 = s \<or> sys_step a s s1"
    and rest: "run_actions fs m1 = Some m'" "(sys_step a)\<^sup>*\<^sup>* s1 t"
    by (auto simp: lockstep.simps(2))
  moreover from step have "(sys_step a)\<^sup>*\<^sup>* s t"
  proof
    assume "sys_step a s s1"
    then show ?thesis using rest(2) by (rule converse_rtranclp_into_rtranclp)
  qed (use rest(2) in simp)
  ultimately show ?case by simp
qed simp


subsection \<open>The poller\<close>

text \<open>What the machine must look like for an event of the batch: the control block is live memory, it is
  not the dumb write, and the reference to the context is none of the callbacks'.\<close>

definition event_ready :: "addr \<Rightarrow> io_event \<Rightarrow> 'w machine \<Rightarrow> system \<Rightarrow> bool" where
  "event_ready p e m s \<longleftrightarrow> iocbs m (ev_obj e) \<noteq> None \<and> aio_fildes (cb_of m e) \<noteq> dumbWriteHandler m
     \<and> classes_loaded m \<and> grefs m (thisObject (sys_pool s)) \<noteq> None
     \<and> sys_data s (ev_obj e) \<noteq> DRef (thisObject (sys_pool s))"

lemma event_completes:
  assumes sim: "sim p m s" and inv: "sys_inv bs s" and q: "in_batch s = ev_obj e # qs"
    and ready: "event_ready p e m s"
  shows "completes m (thisObject (sys_pool s)) e \<and> sys_data s (ev_obj e) = DRef (ref_of m e)
    \<and> sys_refs s (ref_of m e) = Some (obj_of m e) \<and> iocb_data (cb_of m e) = DRef (ref_of m e)"
proof -
  have "ev_obj e \<in># armed s + flying s" by (simp add: flying_def q)
  then obtain h where h: "sys_data s (ev_obj e) = DRef h" "sys_refs s h \<noteq> None"
    using wiredD(1) [OF sys_invD(6) [OF inv]] by blast
  from ready obtain cb where cb: "iocbs m (ev_obj e) = Some cb" by (auto simp: event_ready_def)
  with sim h have data: "iocb_data cb = DRef h" by (auto simp: sim_def)
  with cb have ref: "ref_of m e = h" "cb_of m e = cb" by (simp_all add: ref_of_def cb_of_def)
  have "ev_obj e \<noteq> NULL"
    by (rule not_null_place [OF inv]) (simp add: away_def q)
  with sim h cb data ref ready show ?thesis
    by (auto simp: completes_def sim_def obj_of_def event_ready_def)
qed

text \<open>The two actions before the callback change nothing the system sees.\<close>

lemma sync_file_still: "sim p m s \<Longrightarrow> \<exists>m1. sync_file env fd m = Some m1 \<and> sim p m1 s
    \<and> iocbs m1 = iocbs m \<and> classes_loaded m1 = classes_loaded m"
  by (simp add: sync_file_def emit_def sim_def done_calls_def classes_loaded_def)

lemma report_error_still:
  assumes "sim p m s" and "classes_loaded m" and "sys_refs s h \<noteq> None"
  shows "\<exists>m1. report_error env e (DRef h) m = Some m1 \<and> sim p m1 s
    \<and> iocbs m1 = iocbs m \<and> classes_loaded m1 = classes_loaded m"
  using assms
  by (auto simp: report_error_def emit_def sim_def done_calls_def classes_loaded_def deref_cookie_def
    CallVoidMethod_def Let_def)

text \<open>The four actions that hand an event over are the poller's four steps.\<close>

lemma event_actions_lockstep:
  assumes sim: "sim p m s" and idle: "poller s = PIdle" and batch: "in_batch s = q # qs"
    and data: "sys_data s q = DRef h" and obj: "sys_refs s h = Some obj"
    and tob: "sys_refs s (thisObject (sys_pool s)) = Some tob"
    and put: "putIOCB (sys_pool s) q = Some c" and keep: "thisObject c = thisObject (sys_pool s)"
      "ioContext c = ioContext (sys_pool s)"
    and live: "iocbs m q \<noteq> None" and loaded: "classes_loaded m"
  shows "\<exists>m' t. lockstep p Poller (event_actions env p q (DRef h)) m s m' t
    \<and> in_batch t = qs \<and> poller t = PIdle \<and> warned t = warned s \<and> delivered t = delivered s @ [obj]"
proof -
  obtain cb where cb: "iocbs m q = Some cb" using live by blast
  define s1 where "s1 = s\<lparr>in_batch := qs, sys_data := (sys_data s)(q := DNull), poller := PCleared q h\<rparr>"
  define s2 where "s2 = s1\<lparr>sys_pool := c, poller := PReturned h\<rparr>"
  define s3 where "s3 = s2\<lparr>delivered := delivered s2 @ [obj], poller := PCalled h\<rparr>"
  define s4 where "s4 = s3\<lparr>sys_refs := (sys_refs s3)(h := None), poller := PIdle\<rparr>"
  define m1 where "m1 = m\<lparr>iocbs := (iocbs m)(q \<mapsto> cb\<lparr>iocb_data := DNull\<rparr>)\<rparr>"
  define m2 where "m2 = m1\<lparr>ctls := (ctls m)(p \<mapsto> c)\<rparr>"
  define m3 where "m3 = m2\<lparr>world := env_upcall env (CallDone tob obj) (world m2),
    log := log m2 @ [EUpcall (CallDone tob obj)]\<rparr>"
  define m4 where "m4 = m3\<lparr>grefs := (grefs m3)(h := None), log := log m3 @ [EDeleteGlobalRef h]\<rparr>"
  note sd = s1_def s2_def s3_def s4_def and md = m1_def m2_def m3_def m4_def
  have s1: "sys_step Poller s s1" unfolding s1_def by (rule clear [OF idle batch data])
  have s2: "sys_step Poller s1 s2"
    unfolding s2_def by (rule hand_back [where q = q]) (simp_all add: s1_def put)
  have s3: "sys_step Poller s2 s3" unfolding s3_def by (rule call_done) (simp_all add: s1_def s2_def obj)
  have s4: "sys_step Poller s3 s4" unfolding s4_def by (rule drop) (simp_all add: s1_def s2_def s3_def obj)
  have a1: "clear_data q m = Some m1" using cb by (simp add: clear_data_def m1_def)
  have a2: "putIOCB_at p q m1 = Some m2"
    using sim put by (simp add: putIOCB_at_def sim_def md)
  have a3: "upcall_done env p (DRef h) m2 = Some m3"
    using sim tob obj keep(1) loaded
    by (simp add: upcall_done_def sim_def md emit_def deref_cookie_def CallVoidMethod_def classes_loaded_def)
  have a4: "delete_ref (DRef h) m3 = Some m4"
    using sim obj by (simp add: delete_ref_def sim_def md emit_def DeleteGlobalRef_def)
  have i: "sim p m1 s1" "sim p m2 s2" "sim p m3 s3" "sim p m4 s4"
    using sim keep(2) by (auto simp: sim_def sd md done_calls_def)
  have "lockstep p Poller [delete_ref (DRef h)] m3 s3 m4 s4"
    by (rule lockstep_step [where f = "delete_ref (DRef h)", OF a4 s4 i(4)]) simp
  note l3 = lockstep_step [where f = "upcall_done env p (DRef h)", OF a3 s3 i(3) this]
  note l2 = lockstep_step [where f = "putIOCB_at p q", OF a2 s2 i(2) l3]
  have "lockstep p Poller (event_actions env p q (DRef h)) m s m4 s4"
    using lockstep_step [where f = "clear_data q", OF a1 s1 i(1) l2] by (simp add: event_actions_def)
  moreover have "in_batch s4 = qs" "poller s4 = PIdle" "warned s4 = warned s" "delivered s4 = delivered s @ [obj]"
    by (simp_all add: sd)
  ultimately show ?thesis by blast
qed

text \<open>C13: the code that handles one completion takes the poller's steps, action by action. In a machine
  that represents a state of the concurrent system with the completion next in the batch, the
  actions of \<open>event_code\<close>, whose run is \<open>blockedPoll_event\<close>, all succeed; each is one step of the poller or,
  for \<open>fdatasync\<close> and \<open>onError\<close>, none, and after each the machine represents the state of the system:
  the user data is cleared, then the control block put back, then \<open>done\<close> called, then the reference
  deleted. The poller ends idle with this callback delivered, once, and the log of the
  machine has grown by exactly the effects of one event.\<close>

theorem blockedPoll_event_refines:
  assumes "sim p m s" and "sys_inv bs s" and "poller s = PIdle" and "in_batch s = ev_obj e # qs"
    and "event_ready p e m s"
  shows "\<exists>lf' actions m' t tob. event_code env p uf e lf m = Some (True, lf', actions)
    \<and> lockstep p Poller actions m s m' t
    \<and> blockedPoll_event env p uf e lf m = Some (True, lf', m')
    \<and> grefs m (thisObject (sys_pool s)) = Some tob \<and> log m' = log m @ event_log env uf tob lf m e
    \<and> in_batch t = qs \<and> poller t = PIdle \<and> warned t = warned s
    \<and> delivered t = delivered s @ [obj_of m e]"
proof -
  let ?c = "sys_pool s" and ?q = "ev_obj e" and ?h = "ref_of m e"
  from event_completes [OF assms(1,2,4,5)]
  have e: "completes m (thisObject ?c) e" and data: "sys_data s ?q = DRef ?h"
    and obj: "sys_refs s ?h = Some (obj_of m e)" and cbd: "iocb_data (cb_of m e) = DRef ?h" by simp_all
  note pinv = sys_invD(1) [OF assms(2)]
  obtain c' where put: "putIOCB ?c ?q = Some c'" using putIOCB_some [OF pinv] by blast
  note keep = putIOCB_keeps [OF pinv put]
  from assms(5) obtain tob where tob: "grefs m (thisObject ?c) = Some tob"
    and rest: "classes_loaded m" "aio_fildes (cb_of m e) \<noteq> dumbWriteHandler m" "iocbs m ?q \<noteq> None"
    by (auto simp: event_ready_def)
  have cb: "iocbs m ?q = Some (cb_of m e)" using rest(3) by (auto simp: cb_of_def)
  have c: "ctls m p = Some ?c" and refs: "grefs m = sys_refs s" using assms(1) by (simp_all add: sim_def)
  obtain w where run: "blockedPoll_event env p uf e lf m
      = Some (True, next_file uf lf m e, handled env uf tob lf p c' e w m)"
    using blockedPoll_event_completion [OF c pinv e tob rest(1,2), of env uf lf] put by auto
  let ?acts = "report_error env e (DRef ?h) # event_actions env p ?q (DRef ?h)"
  have hand: "\<exists>m' t. lockstep p Poller ?acts m1 s m' t \<and> in_batch t = qs \<and> poller t = PIdle
      \<and> warned t = warned s \<and> delivered t = delivered s @ [obj_of m e]"
    if m1: "sim p m1 s" "iocbs m1 = iocbs m" "classes_loaded m1" for m1
  proof -
    obtain m2 where m2: "report_error env e (DRef ?h) m1 = Some m2" "sim p m2 s"
      "iocbs m2 = iocbs m1" "classes_loaded m2"
      using report_error_still [OF m1(1,3), of ?h env e] obj m1(3) by auto
    have "\<exists>m' t. lockstep p Poller (event_actions env p ?q (DRef ?h)) m2 s m' t \<and> in_batch t = qs
      \<and> poller t = PIdle \<and> warned t = warned s \<and> delivered t = delivered s @ [obj_of m e]"
      by (rule event_actions_lockstep [OF m2(2) assms(3,4) data obj _ put])
        (use keep m2(3,4) m1(2) rest(3) tob refs in simp_all)
    with lockstep_still [where f = "report_error env e (DRef ?h)", OF m2(1,2)] show ?thesis by blast
  qed
  obtain m1 where m1: "sync_file env (aio_fildes (cb_of m e)) m = Some m1" "sim p m1 s"
    "iocbs m1 = iocbs m" "classes_loaded m1"
    using sync_file_still [OF assms(1)] rest(1) by blast
  obtain lf' acts m' t where code: "event_code env p uf e lf m = Some (True, lf', acts)"
    and lock: "lockstep p Poller acts m s m' t" and t: "in_batch t = qs" "poller t = PIdle"
      "warned t = warned s" "delivered t = delivered s @ [obj_of m e]"
  proof (cases "uf \<and> lf \<noteq> aio_fildes (cb_of m e)")
    case True
    from hand [OF m1(2-4)] lockstep_still [where f = "sync_file env (aio_fildes (cb_of m e))" and fs = ?acts, OF m1(1,2)] that rest(2) cb cbd True show ?thesis
      by (simp add: event_code_def) blast
  next
    case False
    from hand [OF assms(1) refl rest(1)] that rest(2) cb cbd False show ?thesis
      by (simp add: event_code_def) blast
  qed
  from lockstep_run [OF lock] code have "blockedPoll_event env p uf e lf m = Some (True, lf', m')"
    by (simp add: blockedPoll_event_def)
  with run code lock t tob show ?thesis by auto
qed

text \<open>The machine with three requests in flight, as its log tells, and the state it represents.\<close>

definition flight_machine :: "nat machine" where
  "flight_machine = sample_poll_machine\<lparr>log := [ESubmit 9000 20 1, ESubmit 9000 21 1, ESubmit 9000 22 1]\<rparr>"

definition sample_sys :: system where
  "sample_sys = \<lparr>sys_pool = sample_control 3,
     sys_data = (\<lambda>q. if q = 20 then DRef 177 else if q = 21 then DRef 178 else if q = 22 then DRef 179 else DNull),
     sys_refs = [90 \<mapsto> 1, 177 \<mapsto> 77, 178 \<mapsto> 78, 179 \<mapsto> 79], taken = {#}, armed = {#}, refused = {#},
     in_kernel = {#22#}, in_ring = [], in_batch = [20, 21], poller = PIdle,
     accepted = {#77, 78, 79#}, delivered = [], warned = False\<rparr>"

lemma sample_sys_inv: "sys_inv [20, 21, 22] sample_sys"
proof -
  have fl: "flying sample_sys = {#20, 21, 22#}" by (simp add: flying_def sample_sys_def)
  have "places sample_sys = mset [20, 21, 22]" by (simp add: places_def away_def sample_sys_def)
  moreover have "wired (sys_data sample_sys) (sys_refs sample_sys) {20, 21, 22} None"
    by (rule wiredI) (auto simp: sample_sys_def)
  moreover have "ledger sample_sys"
    unfolding ledger_def fl by (simp add: sample_sys_def owner_def)
  ultimately show ?thesis
    unfolding sys_inv_def fl by (simp add: sample_sys_def)
qed

lemma sample_sim: "sim 10 flight_machine sample_sys"
  by (simp add: sim_def flight_machine_def sample_poll_machine_def sample_sys_def accepted_blocks_def done_calls_def)

theorem blockedPoll_event_refines_witness:
  "\<exists>lf' actions m' t. event_code sample_env 10 True (sample_event 20 512) (-1) flight_machine = Some (True, lf', actions)
    \<and> lockstep 10 Poller actions flight_machine sample_sys m' t \<and> in_batch t = [21] \<and> delivered t = [77]"
proof -
  have "event_ready 10 (sample_event 20 512) flight_machine sample_sys"
    using sample_ready by (simp add: event_ready_def flight_machine_def sample_poll_machine_def sample_sys_def cb_of_def
      ready_def classes_loaded_def)
  moreover have "poller sample_sys = PIdle" "in_batch sample_sys = ev_obj (sample_event 20 512) # [21]"
    "delivered sample_sys = []" by (simp_all add: sample_sys_def)
  moreover have "obj_of flight_machine (sample_event 20 512) = 77"
    by (simp add: obj_of_def ref_of_def cb_of_def flight_machine_def sample_poll_machine_def)
  ultimately show ?thesis
    using blockedPoll_event_refines [OF sample_sim sample_sys_inv, of "sample_event 20 512" "[21]" sample_env True "-1"]
    by fastforce
qed
subsection \<open>The submitters\<close>











lemma sim_exc [simp]: "sim p (m\<lparr>exc := x\<rparr>) s = sim p m s"
  by (simp add: sim_def)









end
