(* ===== verification/RingConcurrent.thy ===== *)
theory RingConcurrent
  imports AioRing Transition
begin

section \<open>The ring shared between the kernel and the reaper\<close>

text \<open>
  \<open>ringio_get_events\<close> reads a ring that the kernel goes on writing. Here its accesses to the
  shared memory are steps of their own: reading \<open>head\<close>, reading \<open>tail\<close>, one step for each
  round of the copying loop, storing \<open>head\<close>; or the system call instead. The kernel is the
  environment, by its documented behaviour: it fills the slot at \<open>tail\<close> only while that leaves
  one slot empty, and then publishes it by advancing \<open>tail\<close>. Memory is sequentially consistent,
  which is what the barriers of the source are there for.

  \<open>produced\<close> and \<open>reaped\<close> are the events the kernel has published and the reaper has taken.
\<close>

datatype reap_pc =
  RIdle | RHead u32 | RCopy nat nat u32 bool

record ring_system =
  rs_ring :: aio_ring
  rs_events :: "io_event list"
  rs_pc :: reap_pc
  rs_writing :: "io_event option"
  produced :: "io_event list"
  reaped :: "io_event list"

text \<open>The kernel, which belongs to the environment.\<close>

inductive kernel_ring_step :: "ring_system \<Rightarrow> ring_system \<Rightarrow> bool" where
  kernel_write: "rs_writing s = None \<Longrightarrow> ring_count (rs_ring s) + 1 < unat (nr (rs_ring s)) \<Longrightarrow>
    kernel_ring_step s (s\<lparr>rs_writing := Some ev, rs_ring := (rs_ring s)
      \<lparr>io_events := (io_events (rs_ring s))[unat (tail (rs_ring s)) := ev]\<rparr>\<rparr>)"
| kernel_publish: "rs_writing s = Some ev \<Longrightarrow>
    kernel_ring_step s (s\<lparr>rs_writing := None, rs_ring := (rs_ring s)
      \<lparr>tail := (tail (rs_ring s) + 1) mod nr (rs_ring s)\<rparr>, produced := produced s @ [ev]\<rparr>)"

text \<open>The reaper; the arguments of its call are \<open>min\<close>, \<open>max\<close> and whether the timeout is zero.\<close>

inductive reaper_step :: "int \<Rightarrow> int \<Rightarrow> bool \<Rightarrow> ring_system \<Rightarrow> ring_system \<Rightarrow> bool"
  for min_nr max_nr :: int and no_wait :: bool
where
  read_head: "rs_pc s = RIdle \<Longrightarrow> has_usable_ring (rs_ring s) \<Longrightarrow>
    reaper_step min_nr max_nr no_wait s (s\<lparr>rs_pc := RHead (head (rs_ring s))\<rparr>)"
| read_tail: "rs_pc s = RHead h \<Longrightarrow> available = ring_available (nr (rs_ring s)) h (tail (rs_ring s)) \<Longrightarrow>
    available \<ge> min_nr \<or> no_wait \<Longrightarrow> available \<noteq> 0 \<Longrightarrow> available < max_nr \<Longrightarrow>
    reaper_step min_nr max_nr no_wait s (s\<lparr>rs_pc :=
      RCopy (nat available) 0 h (h + word_of_int available \<ge> nr (rs_ring s))\<rparr>)"
| nothing: "rs_pc s = RHead h \<Longrightarrow> ring_available (nr (rs_ring s)) h (tail (rs_ring s)) = 0 \<Longrightarrow>
    0 \<ge> min_nr \<or> no_wait \<Longrightarrow> reaper_step min_nr max_nr no_wait s (s\<lparr>rs_pc := RIdle\<rparr>)"
| copy_one: "rs_pc s = RCopy (Suc k) i h needMod \<Longrightarrow>
    reap_loop needMod (nr (rs_ring s)) (io_events (rs_ring s)) 1 i h (rs_events s) = Some (events, h') \<Longrightarrow>
    reaper_step min_nr max_nr no_wait s (s\<lparr>rs_events := events, rs_pc := RCopy k (Suc i) h' needMod\<rparr>)"
| store_head: "rs_pc s = RCopy 0 i h needMod \<Longrightarrow>
    reaper_step min_nr max_nr no_wait s (s\<lparr>rs_ring := (rs_ring s)\<lparr>head := h\<rparr>, rs_pc := RIdle,
      reaped := reaped s @ take i (rs_events s)\<rparr>)"
| sys_call: "rs_pc s \<in> {RIdle, RHead h} \<Longrightarrow> k \<le> ring_count (rs_ring s) \<Longrightarrow> int k \<le> max_nr \<Longrightarrow>
    reaper_step min_nr max_nr no_wait s (s\<lparr>rs_pc := RIdle,
      rs_events := take k (ring_pending (rs_ring s)) @ drop k (rs_events s),
      rs_ring := (rs_ring s)\<lparr>head :=
        word_of_nat ((unat (head (rs_ring s)) + k) mod unat (nr (rs_ring s)))\<rparr>,
      reaped := reaped s @ take k (ring_pending (rs_ring s))\<rparr>)"

definition ring_step :: "int \<Rightarrow> int \<Rightarrow> bool \<Rightarrow> ring_system \<Rightarrow> ring_system \<Rightarrow> bool" where
  "ring_step min_nr max_nr no_wait s t \<longleftrightarrow> kernel_ring_step s t \<or> reaper_step min_nr max_nr no_wait s t"

subsection \<open>The steps of one call\<close>

text \<open>The rounds of the copying loop, one after the other.\<close>

lemma copy_run:
  assumes "rs_pc s = RCopy k i h needMod"
    and "reap_loop needMod (nr (rs_ring s)) (io_events (rs_ring s)) k i h (rs_events s) = Some (events, h')"
  shows "(reaper_step min_nr max_nr no_wait)\<^sup>*\<^sup>* s
    (s\<lparr>rs_events := events, rs_pc := RCopy 0 (i + k) h' needMod\<rparr>)"
  using assms
proof (induction k arbitrary: s i h)
  case 0
  then show ?case by (cases s) simp
next
  case (Suc k)
  from Suc.prems(2) obtain events1 h1 where
    one: "reap_loop needMod (nr (rs_ring s)) (io_events (rs_ring s)) 1 i h (rs_events s) = Some (events1, h1)"
    and rest: "reap_loop needMod (nr (rs_ring s)) (io_events (rs_ring s)) k (Suc i) h1 events1 = Some (events, h')"
    by (auto simp: bind_Some_iff)
  let ?s = "s\<lparr>rs_events := events1, rs_pc := RCopy k (Suc i) h1 needMod\<rparr>"
  have "reaper_step min_nr max_nr no_wait s ?s" by (rule copy_one [OF Suc.prems(1) one])
  moreover have "(reaper_step min_nr max_nr no_wait)\<^sup>*\<^sup>* ?s
      (?s\<lparr>rs_events := events, rs_pc := RCopy 0 (Suc i + k) h' needMod\<rparr>)"
    by (rule Suc.IH) (use rest in simp_all)
  ultimately show ?case by (simp add: converse_rtranclp_into_rtranclp)
qed

text \<open>Undisturbed, the steps of the reaper are \<open>ringio_get_events\<close>: when a call takes its events from the
  ring without a system call, a run of steps from \<open>RIdle\<close> back to \<open>RIdle\<close> ends with the same ring and the
  same array, and the events of the call are those reaped.\<close>

lemma reaper_runs_code:
  assumes idle: "rs_pc s = RIdle" and inv: "ring_inv (rs_ring s)" and room: "ring_count (rs_ring s) \<le> length (rs_events s)"
    and user: "\<not> needs_sys_call force min_nr max_nr timeout (rs_ring s)"
    and call: "ringio_get_events sys force ctx min_nr max_nr (rs_events s) timeout (rs_ring s) w
      = Some (r, events, ring, w')"
  shows "(reaper_step min_nr max_nr (zero_timeout timeout))\<^sup>*\<^sup>* s
    (s\<lparr>rs_ring := ring, rs_events := events, reaped := reaped s @ take (nat r) events\<rparr>)"
proof -
  let ?step = "reaper_step min_nr max_nr (zero_timeout timeout)"
  let ?R = "rs_ring s" and ?n = "ring_count (rs_ring s)"
  note avail = ring_available_count [OF inv]
  from user have usable: "has_usable_ring ?R" and wait: "int ?n \<ge> min_nr \<or> zero_timeout timeout"
    and below: "?n = 0 \<or> int ?n < max_nr"
    by (auto simp: needs_sys_call_def)
  have out: "r = int ?n" "events = ring_pending ?R @ drop ?n (rs_events s)" "ring = ?R\<lparr>head := tail ?R\<rparr>"
    using call user by (simp_all add: ringio_get_events_eq [OF inv room])
  let ?s1 = "s\<lparr>rs_pc := RHead (head ?R)\<rparr>"
  have s1: "?step s ?s1" by (rule read_head [OF idle usable])
  show ?thesis
  proof (cases "?n = 0")
    case True
    then have "ring_pending ?R = []" "ring = ?R"
      using ring_count_0_iff [OF inv] out(3) by (simp_all add: ring_pending_def ring_head_same)
    moreover have "?step ?s1 (?s1\<lparr>rs_pc := RIdle\<rparr>)"
      by (rule nothing) (use True avail wait in auto)
    ultimately show ?thesis using s1 out idle True by (cases s) auto
  next
    case False
    define needMod where "needMod \<longleftrightarrow> head ?R + word_of_int (int ?n) \<ge> nr ?R"
    let ?s2 = "?s1\<lparr>rs_pc := RCopy ?n 0 (head ?R) needMod\<rparr>"
    have "?step ?s1 (?s1\<lparr>rs_pc := RCopy (nat (int ?n)) 0 (head ?R) (head ?R + word_of_int (int ?n) \<ge> nr (rs_ring ?s1))\<rparr>)"
      by (rule read_tail) (use False avail wait below in auto)
    then have s2: "?step ?s1 ?s2" by (simp add: needMod_def)
    let ?s3 = "?s2\<lparr>rs_events := events, rs_pc := RCopy 0 ?n (tail ?R) needMod\<rparr>"
    have "?step\<^sup>*\<^sup>* ?s2 (?s2\<lparr>rs_events := events, rs_pc := RCopy 0 (0 + ?n) (tail ?R) needMod\<rparr>)"
      by (rule copy_run) (use reap_loop_pending [OF inv room] out in \<open>simp_all add: needMod_def\<close>)
    then have s3: "?step\<^sup>*\<^sup>* ?s2 ?s3" by simp
    have "?step ?s3 (?s3\<lparr>rs_ring := (rs_ring ?s3)\<lparr>head := tail ?R\<rparr>, rs_pc := RIdle,
        reaped := reaped ?s3 @ take ?n (rs_events ?s3)\<rparr>)"
      by (rule store_head) simp
    then have s4: "?step ?s3 (s\<lparr>rs_ring := ring, rs_events := events, reaped := reaped s @ take (nat r) events\<rparr>)"
      using out idle by (cases s) simp
    from s1 s2 s3 s4 show ?thesis by (meson converse_rtranclp_into_rtranclp rtranclp.rtrancl_into_rtrancl)
  qed
qed

subsection \<open>The invariant\<close>

text \<open>While the loop runs, what it has copied is the front of what is pending.\<close>

fun copying :: "aio_ring \<Rightarrow> io_event list \<Rightarrow> reap_pc \<Rightarrow> bool" where
  "copying ring events RIdle = True"
| "copying ring events (RHead h) = (h = head ring)"
| "copying ring events (RCopy k i h needMod) =
     (i + k \<le> ring_count ring \<and> i + k \<le> length events
      \<and> unat h = (unat (head ring) + i) mod unat (nr ring)
      \<and> take i events = take i (ring_pending ring) \<and> (needMod \<or> unat h + k < unat (nr ring)))"

definition writing_ok :: "ring_system \<Rightarrow> bool" where
  "writing_ok s \<longleftrightarrow> (\<forall>ev. rs_writing s = Some ev \<longrightarrow>
     ring_count (rs_ring s) + 1 < unat (nr (rs_ring s))
     \<and> io_events (rs_ring s) ! unat (tail (rs_ring s)) = ev)"

definition ring_system_inv :: "int \<Rightarrow> ring_system \<Rightarrow> bool" where
  "ring_system_inv max_nr s \<longleftrightarrow> ring_inv (rs_ring s) \<and> max_nr \<le> int (length (rs_events s))
     \<and> produced s = reaped s @ ring_pending (rs_ring s)
     \<and> copying (rs_ring s) (rs_events s) (rs_pc s) \<and> writing_ok s"

text \<open>The slot that the kernel fills is outside the window from head to tail.\<close>

lemma tail_slot:
  assumes "ring_inv ring"
  shows "unat (tail ring) = (unat (head ring) + ring_count ring) mod length (io_events ring)"
  using ring_head_to_tail [OF assms] assms
  by (auto simp: ring_inv_def ring_count_cases [OF assms])

lemma write_slot:
  assumes inv: "ring_inv ring" and room: "ring_count ring + 1 < unat (nr ring)"
  shows "ring_inv (ring\<lparr>io_events := (io_events ring)[unat (tail ring) := ev]\<rparr>)"
    and "ring_count (ring\<lparr>io_events := (io_events ring)[unat (tail ring) := ev]\<rparr>) = ring_count ring"
    and "ring_pending (ring\<lparr>io_events := (io_events ring)[unat (tail ring) := ev]\<rparr>) = ring_pending ring"
proof -
  show "ring_inv (ring\<lparr>io_events := (io_events ring)[unat (tail ring) := ev]\<rparr>)"
    using inv by (simp add: ring_inv_def)
  show count: "ring_count (ring\<lparr>io_events := (io_events ring)[unat (tail ring) := ev]\<rparr>) = ring_count ring"
    by (simp add: ring_count_def)
  have "ring_count ring < length (io_events ring)" using inv room by (simp add: ring_inv_def)
  from ring_slice_update_other [OF tail_slot [OF inv] this, of ev]
  show "ring_pending (ring\<lparr>io_events := (io_events ring)[unat (tail ring) := ev]\<rparr>) = ring_pending ring"
    using count by (simp add: ring_pending_def)
qed

lemma window_succ:
  assumes "h < n" and "t < n" and "(t + n - h) mod n + 1 < (n::nat)"
  shows "((t + 1) mod n + n - h) mod n = (t + n - h) mod n + 1"
proof (cases "t + 1 = n")
  case True
  then have t: "(t + 1) mod n = 0" by simp
  from assms have n: "0 < n" by simp
  show ?thesis
    using assms True unfolding t window_nat [OF assms(1) n] window_nat [OF assms(1,2)]
    by (auto split: if_splits)
next
  case False
  with assms have t: "(t + 1) mod n = t + 1" and lt: "t + 1 < n" by simp_all
  show ?thesis
    using assms unfolding t window_nat [OF assms(1) lt] window_nat [OF assms(1,2)]
    by (auto split: if_splits)
qed
lemma window_advance:
  assumes "h < n" and "t < n" and "k \<le> (t + n - h) mod (n::nat)"
  shows "(t + n - (h + k) mod n) mod n = (t + n - h) mod n - k"
proof (cases "h + k < n")
  case True
  then have h: "(h + k) mod n = h + k" by simp
  show ?thesis
    using assms unfolding h window_nat [OF True assms(2)] window_nat [OF assms(1,2)]
    by (auto split: if_splits)
next
  case False
  have k: "k < n" using assms(1,3) by (intro le_less_trans [OF assms(3)] mod_less_divisor) simp
  from False have "(h + k) mod n = (h + k - n) mod n" by (metis le_mod_geq not_less)
  with False k assms(1) have h: "(h + k) mod n = h + k - n" and lt: "h + k - n < n" by simp_all
  show ?thesis
    using assms False unfolding h window_nat [OF lt assms(2)] window_nat [OF assms(1,2)]
    by (auto split: if_splits)
qed
lemma publish:
  assumes inv: "ring_inv ring" and room: "ring_count ring + 1 < unat (nr ring)"
  shows "ring_inv (ring\<lparr>tail := (tail ring + 1) mod nr ring\<rparr>)"
    and "ring_count (ring\<lparr>tail := (tail ring + 1) mod nr ring\<rparr>) = ring_count ring + 1"
    and "ring_pending (ring\<lparr>tail := (tail ring + 1) mod nr ring\<rparr>)
      = ring_pending ring @ [io_events ring ! unat (tail ring)]"
proof -
  let ?t = "(tail ring + 1) mod nr ring" and ?n = "unat (nr ring)"
  have small: "?n < 2 ^ 31" "unat (tail ring) < ?n" "unat (head ring) < ?n"
    using inv by (simp_all add: ring_inv_def)
  have "unat (tail ring + 1) = unat (tail ring) + 1" using small by (intro unat_succ_small) simp
  then have t: "unat ?t = (unat (tail ring) + 1) mod ?n" by (simp add: unat_mod_distrib)
  show "ring_inv (ring\<lparr>tail := ?t\<rparr>)" using inv t by (simp add: ring_inv_def)
  have count_less: "(unat (tail ring) + ?n - unat (head ring)) mod ?n + 1 < ?n"
    using room by (simp only: ring_count_def)
  show count: "ring_count (ring\<lparr>tail := ?t\<rparr>) = ring_count ring + 1"
    using window_succ [OF small(3,2) count_less] by (simp add: ring_count_def t)
  show "ring_pending (ring\<lparr>tail := ?t\<rparr>) = ring_pending ring @ [io_events ring ! unat (tail ring)]"
    unfolding ring_pending_def count using tail_slot [OF inv]
    by (simp add: ring_slice_snoc)
qed

lemma advance:
  assumes inv: "ring_inv ring" and k: "k \<le> ring_count ring"
    and h: "unat h = (unat (head ring) + k) mod unat (nr ring)"
  shows "ring_inv (ring\<lparr>head := h\<rparr>)" and "ring_count (ring\<lparr>head := h\<rparr>) = ring_count ring - k"
    and "ring_pending (ring\<lparr>head := h\<rparr>) = drop k (ring_pending ring)"
proof -
  let ?n = "unat (nr ring)"
  have small: "unat (tail ring) < ?n" "unat (head ring) < ?n" "length (io_events ring) = ?n"
    using inv by (simp_all add: ring_inv_def)
  then have hn: "unat h < ?n" unfolding h by simp
  show inv': "ring_inv (ring\<lparr>head := h\<rparr>)" using inv hn by (simp add: ring_inv_def)
  have le: "k \<le> (unat (tail ring) + ?n - unat (head ring)) mod ?n"
    using k by (simp only: ring_count_def)
  show count: "ring_count (ring\<lparr>head := h\<rparr>) = ring_count ring - k"
    using window_advance [OF small(2,1) le] by (simp add: ring_count_def h)
  show "ring_pending (ring\<lparr>head := h\<rparr>) = drop k (ring_pending ring)"
  proof (rule nth_equalityI)
    show "length (ring_pending (ring\<lparr>head := h\<rparr>)) = length (drop k (ring_pending ring))"
      by (simp add: count)
  next
    fix j assume "j < length (ring_pending (ring\<lparr>head := h\<rparr>))"
    then have "j < ring_count ring - k" by (simp add: count)
    then show "ring_pending (ring\<lparr>head := h\<rparr>) ! j = drop k (ring_pending ring) ! j"
      by (simp add: ring_pending_def count nth_ring_slice small(3) h mod_add_left_eq add.assoc)
  qed
qed
subsection \<open>Every step keeps the invariant\<close>

lemma unat_mod_small:
  assumes "n < 2 ^ 31" and "0 < n"
  shows "unat (word_of_nat (x mod n) :: u32) = x mod n"
proof -
  from less_trans [OF mod_less_divisor [OF assms(2), of x] assms(1)] have "x mod n < 2 ^ 32" by simp
  then show ?thesis by (simp add: unat_of_nat)
qed

lemma copy_round:
  assumes inv: "ring_inv ring" and c: "copying ring events (RCopy (Suc k) i h needMod)"
  shows "\<exists>events' h'. reap_loop needMod (nr ring) (io_events ring) 1 i h events = Some (events', h')
    \<and> copying ring events' (RCopy k (Suc i) h' needMod) \<and> length events' = length events"
proof -
  let ?n = "unat (nr ring)" and ?ev = "io_events ring ! unat h"
  let ?h = "word_of_nat ((unat h + 1) mod ?n) :: u32"
  from c have room: "i + Suc k \<le> ring_count ring" "i + Suc k \<le> length events"
    and h: "unat h = (unat (head ring) + i) mod ?n"
    and pre: "take i events = take i (ring_pending ring)" and small: "needMod \<or> unat h + Suc k < ?n"
    unfolding copying.simps by blast+
  from inv have n: "?n < 2 ^ 31" "0 < ?n" and len: "length (io_events ring) = ?n"
    by (auto simp: ring_inv_def)
  have hn: "unat h < ?n" using n h by simp
  have slice: "ring_slice (io_events ring) (unat h) 1 = [?ev]"
    using hn len by (simp add: ring_slice_def)
  have run: "reap_loop needMod (nr ring) (io_events ring) 1 i h events
      = Some (take i events @ [?ev] @ drop (i + 1) events, ?h)"
    using reap_loop_slice [OF len n(1) hn, of i 1 events needMod] room small slice by auto
  have h': "unat ?h = (unat h + 1) mod ?n" by (rule unat_mod_small [OF n])
  have next': "unat ?h = (unat (head ring) + Suc i) mod ?n"
  proof (rule trans [OF h'])
    show "(unat h + 1) mod ?n = (unat (head ring) + Suc i) mod ?n" unfolding h by (simp add: mod_Suc_eq)
  qed
  have "ring_pending ring ! i = ?ev"
    using room(1) by (simp add: ring_pending_def nth_ring_slice len h)
  then have "take (Suc i) (ring_pending ring) = take i events @ [?ev]"
    using room(1) pre by (simp add: take_Suc_conv_app_nth)
  moreover have "take (Suc i) (take i events @ [?ev] @ drop (i + 1) events) = take i events @ [?ev]"
    using room(2) by simp
  moreover have "needMod \<or> unat ?h + k < ?n"
    using small h' by (cases needMod) simp_all
  ultimately have "copying ring (take i events @ [?ev] @ drop (i + 1) events) (RCopy k (Suc i) ?h needMod)"
    using room next' by simp
  moreover have "length (take i events @ [?ev] @ drop (i + 1) events) = length events"
    using room(2) by simp
  ultimately show ?thesis using run by blast
qed

text \<open>Publishing more events does not disturb a copy that is under way.\<close>

lemma copying_mono:
  assumes "copying ring events pc" and "head ring' = head ring" and "nr ring' = nr ring"
    and "ring_pending ring' = ring_pending ring @ xs" and "ring_count ring' = ring_count ring + length xs"
  shows "copying ring' events pc"
  using assms by (cases pc) auto

lemma start_copying:
  assumes inv: "ring_inv ring" and avail: "a = ring_available (nr ring) (head ring) (tail ring)"
    and max: "a < max_nr" "max_nr \<le> int (length events)"
  shows "copying ring events (RCopy (nat a) 0 (head ring) (head ring + word_of_int a \<ge> nr ring))"
proof -
  have a: "a = int (ring_count ring)" using avail ring_available_count [OF inv] by simp
  have n: "unat (nr ring) < 2 ^ 31" "unat (head ring) < unat (nr ring)" using inv by (simp_all add: ring_inv_def)
  from needMod_iff [OF n ring_count_less [OF inv]] max show ?thesis
    unfolding a by (auto simp: n)
qed

lemma sys_call_inv:
  assumes inv: "ring_inv ring" and k: "k \<le> ring_count ring" "k \<le> length events"
    and ring': "ring' = ring\<lparr>head := word_of_nat ((unat (head ring) + k) mod unat (nr ring))\<rparr>"
  shows "ring_inv ring'" and "ring_pending ring = take k (ring_pending ring) @ ring_pending ring'"
    and "ring_count ring' \<le> ring_count ring"
proof -
  have "unat (nr ring) < 2 ^ 31" "0 < unat (nr ring)" using inv by (auto simp: ring_inv_def)
  from unat_mod_small [OF this]
  have "unat (word_of_nat ((unat (head ring) + k) mod unat (nr ring)) :: u32)
      = (unat (head ring) + k) mod unat (nr ring)" .
  from advance [OF inv k(1) this] show "ring_inv ring'" "ring_count ring' \<le> ring_count ring"
    "ring_pending ring = take k (ring_pending ring) @ ring_pending ring'" by (simp_all add: ring')
qed

lemma kernel_ring_step_inv:
  assumes step: "kernel_ring_step s t" and inv: "ring_system_inv max_nr s"
  shows "ring_system_inv max_nr t"
proof -
  let ?r = "rs_ring s"
  from inv have r: "ring_inv ?r" and len: "max_nr \<le> int (length (rs_events s))"
    and hist: "produced s = reaped s @ ring_pending ?r"
    and copy: "copying ?r (rs_events s) (rs_pc s)" and wr: "writing_ok s"
    by (simp_all add: ring_system_inv_def)
  from step show ?thesis
  proof (cases rule: kernel_ring_step.cases)
    case (kernel_write ev)
    note w = write_slot [OF r kernel_write(3), of ev]
    have "unat (tail ?r) < length (io_events ?r)" using r by (simp add: ring_inv_def)
    then have "writing_ok t" using kernel_write w by (simp add: writing_ok_def)
    moreover have "copying (rs_ring t) (rs_events t) (rs_pc t)"
      using kernel_write w by (simp add: copying_mono [OF copy, of _ "[]"])
    ultimately show ?thesis using kernel_write w len hist by (simp add: ring_system_inv_def)
  next
    case (kernel_publish ev)
    then have room: "ring_count ?r + 1 < unat (nr ?r)" and ev: "io_events ?r ! unat (tail ?r) = ev"
      using wr by (simp_all add: writing_ok_def)
    note p = publish [OF r room]
    have "copying (rs_ring t) (rs_events t) (rs_pc t)"
      using kernel_publish p by (simp add: copying_mono [OF copy, of _ "[ev]"] ev)
    then show ?thesis using kernel_publish p len hist ev by (simp add: ring_system_inv_def writing_ok_def)
  qed
qed

lemma reaper_step_inv:
  assumes step: "reaper_step min_nr max_nr no_wait s t" and inv: "ring_system_inv max_nr s"
  shows "ring_system_inv max_nr t"
proof -
  let ?r = "rs_ring s"
  from inv have r: "ring_inv ?r" and len: "max_nr \<le> int (length (rs_events s))"
    and hist: "produced s = reaped s @ ring_pending ?r"
    and copy: "copying ?r (rs_events s) (rs_pc s)" and wr: "writing_ok s"
    by (simp_all add: ring_system_inv_def)
  from step show ?thesis
  proof (cases rule: reaper_step.cases)
    case read_head
    then show ?thesis using r len hist wr by (simp add: ring_system_inv_def writing_ok_def)
  next
    case (read_tail h a)
    then have h: "head ?r = h" using copy by simp
    have "copying ?r (rs_events s) (RCopy (nat a) 0 h (h + word_of_int a \<ge> nr ?r))"
      by (rule start_copying [OF r _ read_tail(6) len, unfolded h]) (rule read_tail(3))
    then have "copying (rs_ring t) (rs_events t) (rs_pc t)"
      using read_tail(1) by (simp del: copying.simps)
    then show ?thesis using read_tail(1) r len hist wr
      by (simp add: ring_system_inv_def writing_ok_def del: copying.simps)
  next
    case (nothing h)
    then show ?thesis using r len hist wr by (simp add: ring_system_inv_def writing_ok_def)
  next
    case (copy_one k i h needMod events h')
    from copy have "copying ?r (rs_events s) (RCopy (Suc k) i h needMod)" unfolding copy_one(2) .
    from copy_round [OF r this] copy_one(3)
    have "copying ?r events (RCopy k (Suc i) h' needMod)" "length events = length (rs_events s)" by auto
    then show ?thesis using copy_one(1) r len hist wr
      by (simp add: ring_system_inv_def writing_ok_def del: copying.simps)
  next
    case (store_head i h needMod)
    with copy have i: "i \<le> ring_count ?r" "unat h = (unat (head ?r) + i) mod unat (nr ?r)"
      "take i (rs_events s) = take i (ring_pending ?r)" by simp_all
    note a = advance [OF r i(1,2)]
    have "writing_ok t" using store_head wr a(2) by (auto simp: writing_ok_def)
    then show ?thesis using store_head a r len hist i(3) by (simp add: ring_system_inv_def)
  next
    case (sys_call h k)
    then have k: "k \<le> ring_count ?r" "k \<le> length (rs_events s)" using len by simp_all
    note a = sys_call_inv [OF r k refl]
    have "writing_ok t" using sys_call wr a(3) by (auto simp: writing_ok_def)
    moreover have "produced t = reaped t @ ring_pending (rs_ring t)"
    proof -
      have "produced t = reaped s @ ring_pending ?r" using sys_call(1) hist by simp
      also have "\<dots> = reaped s @ (take k (ring_pending ?r) @ ring_pending (rs_ring t))"
        using a(2) sys_call(1) by simp
      also have "\<dots> = reaped t @ ring_pending (rs_ring t)" using sys_call(1) by simp
      finally show ?thesis .
    qed
    moreover have "length (rs_events t) = length (rs_events s)" using sys_call k by simp
    ultimately show ?thesis using sys_call a len by (simp add: ring_system_inv_def)
  qed
qed

lemma ring_step_inv:
  "ring_step min_nr max_nr no_wait s t \<Longrightarrow> ring_system_inv max_nr s \<Longrightarrow> ring_system_inv max_nr t"
  unfolding ring_step_def using kernel_ring_step_inv reaper_step_inv by blast

subsection \<open>Runs\<close>

text \<open>A ring between two calls, its pending events the only ones produced so far.\<close>

definition ring_start :: "aio_ring \<Rightarrow> io_event list \<Rightarrow> ring_system" where
  "ring_start ring events = \<lparr>rs_ring = ring, rs_events = events, rs_pc = RIdle, rs_writing = None,
     produced = ring_pending ring, reaped = []\<rparr>"

interpretation ringrun: invariant_system "ring_step min_nr max_nr no_wait" "ring_system_inv max_nr"
  for min_nr max_nr no_wait
  by unfold_locales (rule ring_step_inv)

lemma ring_run_inv:
  assumes "(ring_step min_nr max_nr no_wait)\<^sup>*\<^sup>* (ring_start ring events) s"
    and "ring_inv ring" and "max_nr \<le> int (length events)"
  shows "ring_system_inv max_nr s"
  by (rule ringrun.run_inv [OF assms(1)])
    (use assms(2,3) in \<open>simp add: ring_system_inv_def ring_start_def writing_ok_def\<close>)

text \<open>C8: the reaper and the kernel may interleave their accesses to the ring in any way: at every moment
  the events the kernel has published are the events the reaper has returned followed by those
  pending in the ring, so none is lost, none is returned twice and their order is kept; a batch
  that is being copied is the front of what is pending, whatever the kernel adds meanwhile; and the
  ring never fills up so far that head and tail meet.\<close>

theorem ring_exactly_once:
  assumes "(ring_step min_nr max_nr no_wait)\<^sup>*\<^sup>* (ring_start ring events) s"
    and "ring_inv ring" and "max_nr \<le> int (length events)"
  shows "produced s = reaped s @ ring_pending (rs_ring s)
    \<and> length (ring_pending (rs_ring s)) < unat (nr (rs_ring s))
    \<and> (\<forall>k i h needMod. rs_pc s = RCopy k i h needMod \<longrightarrow>
        take i (rs_events s) = take i (ring_pending (rs_ring s)) \<and> i + k \<le> length (ring_pending (rs_ring s)))"
  using ring_run_inv [OF assms] ring_count_less [of "rs_ring s"]
  by (auto simp: ring_system_inv_def)

text \<open>A reaper that has decided to copy always can: in every reachable state in the middle of its
  loop it has a step, so no access to the ring or to the caller's array is out of bounds, and what
  is left to do decreases with each round.\<close>

theorem reaper_never_stuck:
  assumes "(ring_step min_nr max_nr no_wait)\<^sup>*\<^sup>* (ring_start ring events) s"
    and "ring_inv ring" and "max_nr \<le> int (length events)" and "rs_pc s = RCopy k i h needMod"
  shows "\<exists>t. reaper_step min_nr max_nr no_wait s t \<and> (case k of 0 \<Rightarrow> rs_pc t = RIdle
    | Suc j \<Rightarrow> \<exists>h'. rs_pc t = RCopy j (Suc i) h' needMod)"
proof (cases k)
  case 0
  with store_head [of s i h needMod min_nr max_nr no_wait] assms(4) show ?thesis by force
next
  case (Suc j)
  have inv: "ring_inv (rs_ring s)" and "copying (rs_ring s) (rs_events s) (RCopy (Suc j) i h needMod)"
    using ring_run_inv [OF assms(1-3)] unfolding ring_system_inv_def assms(4) Suc by blast+
  from copy_round [OF this] obtain events' h' where
    "reap_loop needMod (nr (rs_ring s)) (io_events (rs_ring s)) 1 i h (rs_events s) = Some (events', h')" by blast
  with copy_one assms(4) Suc show ?thesis by fastforce
qed

text \<open>A run on the ring of \<open>AioRing\<close>: the reaper reads both indices and copies one of the two events; then
  the kernel starts to write another event.\<close>

definition sample_events :: "io_event list" where
  "sample_events = replicate 3 \<lparr>ev_obj = 0, ev_res = 0\<rparr>"

lemma sample_copying:
  "\<exists>s. (ring_step 1 3 False)\<^sup>*\<^sup>* (ring_start wrapped_ring sample_events) s \<and> rs_pc s = RCopy 2 0 3 True"
proof -
  let ?s = "ring_start wrapped_ring sample_events"
  let ?s1 = "?s\<lparr>rs_pc := RHead (head (rs_ring ?s))\<rparr>"
  have avail: "2 = ring_available (nr (rs_ring ?s1)) 3 (tail (rs_ring ?s1))"
    by (simp add: ring_start_def ring_available_def)
  let ?s2 = "?s1\<lparr>rs_pc := RCopy (nat 2) 0 3 (3 + word_of_int 2 \<ge> nr (rs_ring ?s1))\<rparr>"
  have "reaper_step 1 3 False ?s ?s1" by (rule read_head) (simp_all add: ring_start_def)
  then have "ring_step 1 3 False ?s ?s1" unfolding ring_step_def by (rule disjI2)
  moreover have "reaper_step 1 3 False ?s1 ?s2"
    by (rule read_tail [OF _ avail]) (simp_all add: ring_start_def)
  then have "ring_step 1 3 False ?s1 ?s2" unfolding ring_step_def by (rule disjI2)
  moreover have "rs_pc ?s2 = RCopy 2 0 3 True" by (simp add: ring_start_def)
  ultimately show ?thesis by (meson r_into_rtranclp rtranclp.rtrancl_into_rtrancl)
qed

lemma sample_room: "(3::int) \<le> int (length sample_events)"
  by (simp add: sample_events_def)

theorem ring_exactly_once_witness:
  "\<exists>s. (ring_step 1 3 False)\<^sup>*\<^sup>* (ring_start wrapped_ring sample_events) s \<and> rs_pc s = RCopy 2 0 3 True
    \<and> produced s = reaped s @ ring_pending (rs_ring s)"
  using sample_copying ring_exactly_once [OF _ wrapped_ring_inv sample_room] by blast

theorem reaper_never_stuck_witness:
  "\<exists>s t. rs_pc s = RCopy 2 0 3 True \<and> reaper_step 1 3 False s t \<and> (\<exists>h'. rs_pc t = RCopy 1 1 h' True)"
proof -
  obtain s where s: "(ring_step 1 3 False)\<^sup>*\<^sup>* (ring_start wrapped_ring sample_events) s"
    "rs_pc s = RCopy 2 0 3 True" using sample_copying by blast
  from reaper_never_stuck [OF s(1) wrapped_ring_inv sample_room s(2)] s(2)
  show ?thesis by (auto simp: numeral_2_eq_2)
qed

end
