(* ===== verification/Spec2Isabelle.thy ===== *)
theory Spec2Isabelle
  imports JavaFile CallbackCache Refinement RingConcurrent
begin

text \<open>
  This development models the native layer that Apache ActiveMQ Artemis uses for asynchronous
  file I/O on Linux, \<open>src/src/main/c/org_apache_activemq_artemis_nativo_jlibaio_LibaioContext.c\<close>
  with \<open>exception_helper.h\<close>, and the Java classes that drive it, \<open>LibaioContext\<close>,
  \<open>LibaioFile\<close> and \<open>util/CallbackCache\<close>.

  The program. A context (\<open>struct io_control\<close>) wraps a kernel AIO queue and owns a fixed pool of
  control blocks (\<open>struct iocb\<close>). \<open>submitWrite\<close> and \<open>submitRead\<close> take a block from the pool, tie it
  to a global reference to the Java callback and hand it to the kernel. The kernel puts completions
  into a ring that is mapped into the process. \<open>blockedPoll\<close>, run by a dedicated Java thread, and
  \<open>poll\<close> reap them with \<open>ringio_get_events\<close>, put the blocks back, call the callbacks and delete
  the references. On the Java side a semaphore bounds the requests in flight.

  The theories, in the order of their imports:

  \<^item> \<open>Prelude\<close>: C arrays with bounds, C integers, mutexes, cyclic slices of arrays.
  \<^item> \<open>Pool_Interface\<close>: the locale \<open>bounded_pool\<close>, the contract of a first-in first-out pool.
  \<^item> \<open>IocbPool\<close>: \<open>struct io_control\<close>, \<open>getIOCB\<close>, \<open>putIOCB\<close>; interpretation of the locale.
  \<^item> \<open>AioRing\<close>: \<open>struct aio_ring\<close>, \<open>has_usable_ring\<close>, \<open>ringio_get_events\<close> on 32-bit words.
  \<^item> \<open>Machine\<close>: the state of the library (its global variables, the C heap by kind of block, the
    global references, the pending exception, a log of effects), the record \<open>env\<close> of everything
    outside, and the \<open>throw\<close> functions with \<open>exceptionMessage\<close>.
  \<^item> \<open>Sample\<close>: a concrete environment and machine, at which the theorems are applied.
  \<^item> \<open>Submit\<close>: \<open>getIOControl\<close>, \<open>submit\<close>, \<open>submitWrite\<close>, \<open>submitRead\<close>, \<open>setForceSyscall\<close>; a submission is
    the composition of \<open>getIOCB_at\<close>, \<open>arm_iocb\<close>, \<open>io_submit_at\<close> and, after a refusal, \<open>release_callback\<close>
    and \<open>putIOCB_at\<close>.
  \<^item> \<open>Poll\<close>: \<open>blockedPoll\<close> and \<open>poll\<close>, event by event, round by round; \<open>event_code\<close> gives the body of
    the loop of \<open>blockedPoll\<close> as the list of its actions, and \<open>blockedPoll_event\<close> runs them.
  \<^item> \<open>Context\<close>: \<open>newContext\<close>, \<open>deleteContext\<close>, the \<open>iocb_destroy\<close> functions.
  \<^item> \<open>Buffers\<close>: \<open>verifyBuffer\<close>, \<open>newAlignedBuffer\<close>, \<open>freeBuffer\<close>, \<open>memsetBuffer\<close>.
  \<^item> \<open>Files\<close>: \<open>open\<close>, \<open>close\<close>, \<open>lock\<close>, \<open>getSize\<close>, \<open>getBlockSize\<close>, \<open>getBlockSizeFD\<close>, \<open>fallocate\<close>, \<open>fill\<close>.
  \<^item> \<open>Loading\<close>: \<open>JNI_OnLoad\<close>, \<open>JNI_OnUnload\<close>, \<open>closeDumbHandlers\<close>, \<open>shutdownHook\<close>.
  \<^item> \<open>CallbackCache\<close>: the Java class; second interpretation of \<open>bounded_pool\<close>.
  \<^item> \<open>JavaContext\<close>: the Java \<open>LibaioContext\<close> on top of the native functions.
  \<^item> \<open>JavaFile\<close>: opening files, and the Java class \<open>LibaioFile\<close>.
  \<^item> \<open>Transition\<close>: the locales \<open>invariant_system\<close> and \<open>ranked_system\<close> for step relations.
  \<^item> \<open>RingConcurrent\<close>: the accesses of \<open>ringio_get_events\<close> to the ring, interleaved with the kernel;
    undisturbed they are a call that reaps in user space (\<open>reaper_runs_code\<close>).
  \<^item> \<open>Interleaving\<close>: any number of submitters, the kernel and the poller, interleaved.
  \<^item> \<open>Refinement\<close>: the actions of \<open>Submit\<close> and \<open>Poll\<close> in lockstep with the steps of \<open>Interleaving\<close>.

  State and errors. An operation is a function from the machine to an \<open>option\<close>; \<open>None\<close> stands for
  undefined behaviour of C or JNI (out of bounds, dangling or null pointer, dead reference, a lock
  taken twice), so a theorem that a call is \<open>Some\<close> says that it is safe. What the code reports is a
  value: a return code or the field \<open>exc\<close>. \<open>env\<close> holds the system calls, \<open>libaio\<close> and the JVM as
  functions of an arbitrary type of worlds \<open>'w\<close>; what the theorems need of them (a fresh reference,
  an accepted request, the file kept by \<open>io_prep_pwrite\<close>) are hypotheses of the theorems.

  What is shown. The pool and the Java cache refine a list (\<open>iocb_pool_refines_queue\<close>,
  \<open>cache_refines_queue\<close>). The ring: every branch of the reaper (\<open>ringio_get_events_correct\<close>), its word
  arithmetic, its bounds when \<open>tail\<close> is garbage (\<open>corrupt_tail_in_bounds\<close>), and exactly-once
  delivery under all interleavings with the kernel (\<open>ring_exactly_once\<close>). Submission and polling:
  full effect of accepted and refused requests, of a round over any batch, the order of
  \<open>fdatasync\<close> and callbacks, the end of the loop. Under concurrency: no control block is lost or
  shared, callbacks are called exactly once, and what is outstanding is always delivered
  (\<open>blocks_conserved\<close>, \<open>callbacks_exactly_once\<close>, \<open>draining_delivers\<close>). The code takes these steps: each
  action of a submission with a non-null reference (\<open>submit_refines\<close>) and of the handling of one
  completion in \<open>blockedPoll\<close> (\<open>blockedPoll_event_refines\<close>) is one step of its actor or invisible, and leaves
  machine and system related (\<open>sim\<close>, \<open>lockstep\<close>); the steps of the kernel and the reaping step are not
  covered by these two. Contexts, buffers, files and loading: what every path allocates, frees, keeps
  and raises. The heap, the kernel contexts, the global references and the pinned strings are
  accounted for; the leaks that showed are stated in the theorems (\<open>newContext_outcomes\<close>,
  \<open>newAlignedBuffer_result\<close>, \<open>getBlockSize_pins\<close>, \<open>closeDumbHandlers_closes_stdin\<close>). This theory composes
  submission and polling (\<open>callback_delivered\<close>).

  Fuel. \<open>blockedPoll_loop\<close> has a number of rounds as fuel and reports when it is used up;
  \<open>blockedPoll_stops\<close> gives the fuel that suffices. \<open>fill\<close> recurses on the number of megabytes, all
  other loops on the number of events or blocks.

  Not modelled. The \<open>DEBUG\<close> output; \<open>NewStringUTF\<close>, folded into the upcall; weak memory (the barriers
  are taken to give sequential consistency); the kernel itself, which appears as \<open>env\<close> or as the
  environment steps of the concurrent models; submissions whose global reference is null in
  \<open>Interleaving\<close> (\<open>null_reference_pollers_differ\<close> shows what becomes of them) and the dumb write there
  (see \<open>blockedPoll_stops\<close>). An upcall changes the world and nothing else: a callback that throws, after
  which the next JNI call of the loop is undefined, or that calls \<open>submitWrite\<close> again before it returns
  (in \<open>Interleaving\<close> that is a submitter between two steps of the poller) is not modelled in
  \<open>blockedPoll_event\<close>. A mutex is a field of the structure that holds it and no resource of its own, so
  the failure paths of \<open>newContext\<close> that free the structure without destroying it leave no trace here.
  The system call of \<open>reaper_step\<close> may come at any time, which admits more runs than the code has.
  \<open>SubmitInfo\<close> and \<open>NativeLogger\<close> have no logic; the tests
  and the build are not part of the program.

  Plan. The remaining candidates are \<open>poll\<close> as a second kind of poller in \<open>Interleaving\<close> and the
  shutdown of a context while submitters are active.
\<close>

section \<open>A request from its submission to its callback\<close>

text \<open>C7: a request that the kernel accepts and completes ends in the call of its callback. The write takes
  the oldest free control block; when the poller meets the completion of that block, it calls
  \<open>done\<close> on the context with the callback that was submitted (after \<open>onError\<close> when the result is
  negative), deletes the reference made for it and puts the control block at the end of the pool:
  after the round trip no reference and no control block is missing.\<close>

theorem callback_delivered:
  assumes "env_GetDirectBufferAddress env cp (world m) = p" and "ctx_ok p m"
    and "ctls m p = Some c" and "used c < queueSize c"
    and "iocbs m (hd (pool_free c)) = Some blk"
    and "env_NewGlobalRef env callback (world m) = (h, w)" and "h \<noteq> 0" and "grefs m h = None"
    and "cb = (env_prep_pwrite env blk fd (env_GetDirectBufferAddress env buffer (world m))
           (size_t nbytes) position)\<lparr>iocb_data := cookie_of h\<rparr>"
    and "env_io_submit env (ioContext c) (hd (pool_free c)) cb w = (r, w')" and "0 \<le> r"
    and "grefs m (thisObject c) = Some tob" and "classes_loaded m"
    and "aio_fildes cb \<noteq> dumbWriteHandler m" and "ev_obj e = hd (pool_free c)"
  shows "\<exists>m1 m2 c'. submitWrite env fd cp position nbytes buffer callback m = Some m1 \<and> exc m1 = exc m
    \<and> blockedPoll_event env p False e lf m1 = Some (True, lf, m2)
    \<and> log m2 = log m @ [ESubmit (ioContext c) (hd (pool_free c)) r] @ error_log env callback e
        @ [EUpcall (CallDone tob callback), EDeleteGlobalRef h]
    \<and> grefs m2 = grefs m \<and> ctls m2 = (ctls m)(p \<mapsto> c') \<and> pool_inv c'
    \<and> pool_free c' = tl (pool_free c) @ [hd (pool_free c)] \<and> used c' = used c"
proof -
  let ?q = "hd (pool_free c)"
  let ?c = "c\<lparr>used := used c + 1, iocbGet := (iocbGet c + 1) mod queueSize c\<rparr>"
  define cb0 where "cb0 = env_prep_pwrite env blk fd (env_GetDirectBufferAddress env buffer (world m))
    (size_t nbytes) position"
  have cb: "cb = cb0\<lparr>iocb_data := cookie_of h\<rparr>" using assms(9) by (simp add: cb0_def)
  have inv: "pool_inv c" using assms(2,3) by (simp add: ctx_ok_def)
  note tk = taken_inv [OF inv assms(4)]
  define m1 where "m1 = (requested p c cb0 h callback w m)\<lparr>world := w', log := log m @ [ESubmit (ioContext c) ?q r]\<rparr>"
  have sub: "submitWrite env fd cp position nbytes buffer callback m = Some m1"
    unfolding submitWrite_request m1_def
    by (rule request_accepted [where cb = cb0]) (use assms cb cb0_def in simp_all)
  have m1: "ctls m1 p = Some ?c" "iocbs m1 ?q = Some cb" "grefs m1 = (grefs m)(h \<mapsto> callback)"
    "classes_loaded m1" "dumbWriteHandler m1 = dumbWriteHandler m" "exc m1 = exc m"
    "log m1 = log m @ [ESubmit (ioContext c) ?q r]" "ctls m1 = (ctls m)(p \<mapsto> ?c)"
    using assms(7,13) cb by (simp_all add: m1_def requested_def classes_loaded_def)
  have e: "cb_of m1 e = cb" "ref_of m1 e = h" "obj_of m1 e = callback"
    using m1 assms(7,15) cb by (simp_all add: cb_of_def ref_of_def obj_of_def cookie_of_def)
  have other: "thisObject c \<noteq> h" using assms(8,12) by auto
  have comp: "completes m1 (thisObject ?c) e"
    using e m1 cb assms(7,15) tk(3) other by (simp add: completes_def cookie_of_def)
  obtain c' where put: "putIOCB ?c ?q = Some c'" "pool_inv c'" "pool_free c' = tl (pool_free c) @ [?q]"
    "used c' = used c" using Submit.put_back [OF inv assms(4)] by blast
  obtain v where run: "blockedPoll_event env p False e lf m1
      = Some (True, next_file False lf m1 e, handled env False tob lf p c' e v m1)"
    using blockedPoll_event_completion [OF m1(1) tk(1) comp _ m1(4), of tob env False lf]
      put assms(12,14,15) e(1) m1(3,5) other by auto
  have "grefs (handled env False tob lf p c' e v m1) = grefs m"
    using m1(3) e(2) assms(8) by (simp add: fun_upd_idem)
  moreover have "ctls (handled env False tob lf p c' e v m1) = (ctls m)(p \<mapsto> c')"
    using m1(8) by simp
  moreover have "log (handled env False tob lf p c' e v m1) = log m @ [ESubmit (ioContext c) ?q r]
      @ error_log env callback e @ [EUpcall (CallDone tob callback), EDeleteGlobalRef h]"
    using m1(7) e by (simp add: event_log_def)
  ultimately show ?thesis
    using sub run m1(6) put by (auto simp: next_file_def)
qed

theorem callback_delivered_witness:
  "\<exists>m1 m2. submitWrite sample_env 6 10 512 1024 50 77 (sample_machine 0 1) = Some m1
    \<and> blockedPoll_event sample_env 10 False (sample_event 20 512) (-1) m1 = Some (True, -1, m2)
    \<and> log m2 = [ESubmit 9000 20 1, EUpcall (CallDone 1 77), EDeleteGlobalRef 177]
    \<and> grefs m2 = [90 \<mapsto> 1]"
proof -
  have "ctx_ok 10 (sample_machine 0 1)" by (simp add: ctx_ok_def)
  moreover have "classes_loaded (sample_machine 0 1)" using sample_ready by (simp add: ready_def)
  moreover have "error_log sample_env 77 (sample_event 20 512) = []"
    by (simp add: error_log_def eventResult_of_def to_int32_def)
  ultimately show ?thesis
    using callback_delivered [where env = sample_env and cp = 10 and m = "sample_machine 0 1" and p = 10
        and c = "sample_control 0" and blk = "sample_iocb 6 DNull" and callback = 77 and h = 177
        and w = 1 and w' = 1 and r = 1 and fd = 6 and buffer = 50 and nbytes = 1024 and position = 512
        and tob = 1 and e = "sample_event 20 512" and lf = "-1", OF _ _ _ _ _ _ _ _ refl]
    by (fastforce simp: sample_prep_def)
qed


text \<open>C24: a request without a reference, and what the two pollers make of it. When \<open>NewGlobalRef\<close> gives null
  (no memory for the reference, or a null callback) the write is submitted all the same. In
  \<open>blockedPoll\<close> its completion counts as a duplicate: no \<open>done\<close> and no \<open>onError\<close> is called, whatever the
  result, the user-space reaping is turned off for good, and the control block never returns to
  the pool. \<open>poll\<close>, on the same machine, calls nobody either and leaves the entry of the array
  alone, but puts the control block back and turns nothing off; a program that submits null
  callbacks and polls with \<open>poll\<close>, as the repository's \<open>LibaioTest\<close> does, loses nothing.\<close>

theorem null_reference_pollers_differ:
  assumes "env_GetDirectBufferAddress env cp (world m) = p" and "ctx_ok p m"
    and "ctls m p = Some c" and "used c < queueSize c"
    and "iocbs m (hd (pool_free c)) = Some blk"
    and "env_NewGlobalRef env callback (world m) = (0, w)"
    and "cb = (env_prep_pwrite env blk fd (env_GetDirectBufferAddress env buffer (world m))
           (size_t nbytes) position)\<lparr>iocb_data := DNull\<rparr>"
    and "env_io_submit env (ioContext c) (hd (pool_free c)) cb w = (r, w')" and "0 \<le> r"
    and "aio_fildes cb \<noteq> dumbWriteHandler m" and "ev_obj e = hd (pool_free c)"
  shows "\<exists>m1 m2 c' m3 c3. submitWrite env fd cp position nbytes buffer callback m = Some m1 \<and> exc m1 = exc m
    \<and> blockedPoll_event env p False e lf m1 = Some (True, lf, m2)
    \<and> log m2 = log m @ [ESubmit (ioContext c) (hd (pool_free c)) r]
        @ (if forceSysCall m then [] else [EStdout duplicate_warning])
    \<and> forceSysCall m2 \<and> ctls m2 = (ctls m)(p \<mapsto> c') \<and> used c' = used c + 1
    \<and> pool_free c' = tl (pool_free c)
    \<and> poll_event env p i e callbacks m1 = Some (callbacks, m3)
    \<and> log m3 = log m @ [ESubmit (ioContext c) (hd (pool_free c)) r] \<and> forceSysCall m3 = forceSysCall m
    \<and> ctls m3 = (ctls m)(p \<mapsto> c3) \<and> used c3 = used c \<and> pool_free c3 = tl (pool_free c) @ [hd (pool_free c)]"
proof -
  let ?q = "hd (pool_free c)"
  define cb0 where "cb0 = env_prep_pwrite env blk fd (env_GetDirectBufferAddress env buffer (world m))
    (size_t nbytes) position"
  have cb: "cb = cb0\<lparr>iocb_data := cookie_of 0\<rparr>" using assms(7) by (simp add: cb0_def cookie_of_def)
  have inv: "pool_inv c" using assms(2,3) by (simp add: ctx_ok_def)
  define m1 where "m1 = (requested p c cb0 0 callback w m)\<lparr>world := w', log := log m @ [ESubmit (ioContext c) ?q r]\<rparr>"
  have sub: "submitWrite env fd cp position nbytes buffer callback m = Some m1"
    unfolding submitWrite_request m1_def
    by (rule request_accepted [where cb = cb0]) (use assms(1-6,8,9) cb cb0_def in simp_all)
  have m1: "iocbs m1 ?q = Some cb" "dumbWriteHandler m1 = dumbWriteHandler m" "exc m1 = exc m"
    "log m1 = log m @ [ESubmit (ioContext c) ?q r]" "forceSysCall m1 = forceSysCall m"
    "ctls m1 = (ctls m)(p \<mapsto> c\<lparr>used := used c + 1, iocbGet := (iocbGet c + 1) mod queueSize c\<rparr>)"
    using cb by (simp_all add: m1_def requested_def)
  have data: "iocb_data cb = DNull" using assms(7) by simp
  obtain c3 where put: "putIOCB (c\<lparr>used := used c + 1, iocbGet := (iocbGet c + 1) mod queueSize c\<rparr>) ?q = Some c3"
    "pool_free c3 = tl (pool_free c) @ [?q]" "used c3 = used c" using Submit.put_back [OF inv assms(4)] by blast
  have blocked: "\<exists>m2 c'. blockedPoll_event env p False e lf m1 = Some (True, lf, m2)
    \<and> log m2 = log m @ [ESubmit (ioContext c) ?q r] @ (if forceSysCall m then [] else [EStdout duplicate_warning])
    \<and> forceSysCall m2 \<and> ctls m2 = (ctls m)(p \<mapsto> c') \<and> used c' = used c + 1 \<and> pool_free c' = tl (pool_free c)"
    using m1 data assms(10,11) taken_inv(2) [OF inv assms(4)] by (auto simp: event_defs Let_def emit_def)
  have "poll_event env p i e callbacks m1 = Some (callbacks, m1\<lparr>ctls := (ctls m)(p \<mapsto> c3)\<rparr>)"
    using m1 data assms(11) put(1) by (simp add: poll_event_def putIOCB_at_def Let_def)
  with blocked sub m1(3-5) put(2,3) show ?thesis by fastforce
qed

theorem null_reference_pollers_differ_witness:
  "\<exists>m1 m2 c'. submitWrite sample_env 6 10 512 1024 50 0 (sample_machine 0 1) = Some m1
    \<and> blockedPoll_event sample_env 10 False (sample_event 20 512) (-1) m1 = Some (True, -1, m2)
    \<and> ctls m2 10 = Some c' \<and> used c' = 1 \<and> pool_free c' = [21, 22]
    \<and> (\<exists>m3 c3. poll_event sample_env 10 0 (sample_event 20 512) [9] m1 = Some ([9], m3)
      \<and> ctls m3 10 = Some c3 \<and> used c3 = 0 \<and> pool_free c3 = [21, 22, 20])"
proof -
  have "ctx_ok 10 (sample_machine 0 1)" by (simp add: ctx_ok_def)
  then show ?thesis
    using null_reference_pollers_differ [where env = sample_env and cp = 10 and m = "sample_machine 0 1" and p = 10
        and c = "sample_control 0" and blk = "sample_iocb 6 DNull" and callback = 0
        and w = 1 and w' = 1 and r = 1 and fd = 6 and buffer = 50 and nbytes = 1024 and position = 512
        and e = "sample_event 20 512" and lf = "-1" and i = 0 and callbacks = "[9]", OF _ _ _ _ _ _ refl]
    by (fastforce simp: sample_prep_def)
qed

end
